theory Spec2Isabelle
  imports Main "HOL-Library.Word"
begin

unbundle bit_operations_syntax

section \<open>Text\<close>

text \<open>
  A Python \<open>str\<close> is a sequence of Unicode code points.  A code point is a natural
  number; \<open>str\<close> turns an ASCII literal of the source into such a sequence.
\<close>

type_synonym pytext = "nat list"

definition str :: "string \<Rightarrow> pytext" where
  "str s = map of_char s"

text \<open>
  The code points that \<open>str.strip()\<close> removes and that \<open>\s\<close> matches in a
  \<open>str\<close> pattern (both test Unicode whitespace): U+0009..U+000D, U+001C..U+0020,
  U+0085, U+00A0, U+1680, U+2000..U+200A, U+2028, U+2029, U+202F, U+205F, U+3000.
\<close>

definition is_space :: "nat \<Rightarrow> bool" where
  "is_space c \<longleftrightarrow>
     (9 \<le> c \<and> c \<le> 13) \<or> (28 \<le> c \<and> c \<le> 32) \<or> c = 133 \<or> c = 160 \<or> c = 5760 \<or>
     (8192 \<le> c \<and> c \<le> 8202) \<or> c = 8232 \<or> c = 8233 \<or> c = 8239 \<or> c = 8287 \<or> c = 12288"

text \<open>\<open>s.strip()\<close>: whitespace removed at both ends.\<close>

definition strip :: "pytext \<Rightarrow> pytext" where
  "strip s = rev (dropWhile is_space (rev (dropWhile is_space s)))"

section \<open>The three patterns of \<open>strip_artifacts\<close>\<close>

definition lower_ascii :: "nat \<Rightarrow> nat" where
  "lower_ascii c = (if 65 \<le> c \<and> c \<le> 90 then c + 32 else c)"

text \<open>
  \<open>re.IGNORECASE\<close> on a \<open>str\<close> pattern, for a pattern character \<open>p\<close> that is
  ASCII.  A character without case matches only itself.  A letter matches every code point
  whose simple lowercase mapping is the lowercase letter (the two ASCII forms, U+0130 for
  \<open>i\<close>, U+212A for \<open>k\<close>) and the equivalents the regex compiler adds for it
  (U+0131 for \<open>i\<close>, U+017F for \<open>s\<close>).
\<close>

definition matches_ignorecase :: "nat \<Rightarrow> nat \<Rightarrow> bool" where
  "matches_ignorecase p c \<longleftrightarrow>
     (let lo = lower_ascii p in
      if 97 \<le> lo \<and> lo \<le> 122
      then lower_ascii c = lo \<or> (lo = 105 \<and> (c = 304 \<or> c = 305)) \<or>
           (lo = 115 \<and> c = 383) \<or> (lo = 107 \<and> c = 8490)
      else c = p)"

text \<open>The subject \<open>s\<close> begins with the literal \<open>pat\<close>, letters compared ignoring case.\<close>

fun match_literal :: "pytext \<Rightarrow> pytext \<Rightarrow> bool" where
  "match_literal [] s = True"
| "match_literal (p # ps) [] = False"
| "match_literal (p # ps) (c # cs) = (matches_ignorecase p c \<and> match_literal ps cs)"

definition final_answer :: pytext where
  "final_answer = str ''Final Answer:''"

definition email_protected :: pytext where
  "email_protected = str ''[email protected]''"

definition correct_email :: pytext where
  "correct_email = str ''the correct email address''"

definition newline :: nat where
  "newline = 10"

text \<open>
  \<open>re.sub(r'^Final Answer:\s*', '', s, flags=re.IGNORECASE)\<close>.  Without
  \<open>re.MULTILINE\<close> the anchor holds at position 0 only, so at most one match is
  replaced: the label and the whole run of whitespace after it.
\<close>

definition sub_leading_label :: "pytext \<Rightarrow> pytext" where
  "sub_leading_label s =
     (if match_literal final_answer s
      then dropWhile is_space (drop (length final_answer) s)
      else s)"

text \<open>
  \<open>re.sub(r'\n\s*Final Answer:\s*', '\n', s, flags=re.IGNORECASE)\<close>.  The subject is
  scanned from the left.  At a line feed, the first \<open>\s*\<close> takes the whole run of
  whitespace that follows (giving some of it back cannot help: the label does not begin
  with whitespace); if the label comes next, the match extends over the whitespace after
  the label, a single line feed is written for it and the scan resumes behind the match.
  Otherwise the character is copied.
\<close>

function sub_line_label :: "pytext \<Rightarrow> pytext" where
  "sub_line_label [] = []"
| "sub_line_label (c # cs) =
     (if c = newline \<and> match_literal final_answer (dropWhile is_space cs)
      then newline #
           sub_line_label (dropWhile is_space (drop (length final_answer) (dropWhile is_space cs)))
      else c # sub_line_label cs)"
  by pat_completeness auto
termination
proof (relation "measure length")
  fix c :: nat and cs :: pytext
  have "length (dropWhile is_space (drop (length final_answer) (dropWhile is_space cs)))
          \<le> length (drop (length final_answer) (dropWhile is_space cs))"
    by (rule length_dropWhile_le)
  also have "\<dots> \<le> length (dropWhile is_space cs)"
    by simp
  also have "\<dots> \<le> length cs"
    by (rule length_dropWhile_le)
  finally show
    "(dropWhile is_space (drop (length final_answer) (dropWhile is_space cs)), c # cs)
       \<in> measure length"
    by simp
qed simp_all

text \<open>
  \<open>re.sub(r'\[email protected\]', 'the correct email address', s, flags=re.IGNORECASE)\<close>:
  every occurrence of the literal, found from the left, is replaced and the scan resumes
  behind it.
\<close>

function sub_email :: "pytext \<Rightarrow> pytext" where
  "sub_email [] = []"
| "sub_email (c # cs) =
     (if match_literal email_protected (c # cs)
      then correct_email @ sub_email (drop (length email_protected) (c # cs))
      else c # sub_email cs)"
  by pat_completeness auto
termination
proof (relation "measure length")
  fix c :: nat and cs :: pytext
  have "0 < length email_protected"
    by (simp add: email_protected_def str_def)
  then show "(drop (length email_protected) (c # cs), c # cs) \<in> measure length"
    by simp
qed simp_all

section \<open>Exceptions\<close>

text \<open>
  The exception classes that the \<open>except\<close> clauses of the source tell apart:
  \<open>LangChainException\<close>, and every other subclass of \<open>Exception\<close>.
\<close>

datatype exn = LangChainException | ValueError | KeyError | OtherException

section \<open>\<open>strip_artifacts\<close>\<close>

text \<open>
  One statement \<open>output = re.sub(..., output, ...).strip()\<close> of the \<open>try\<close>
  block.  On a \<open>str\<close> neither call raises.
\<close>

definition re_sub_strip :: "(pytext \<Rightarrow> pytext) \<Rightarrow> pytext \<Rightarrow> exn + pytext" where
  "re_sub_strip sub output = Inr (strip (sub output))"

text \<open>
  The \<open>try\<close> block and its handler, for three statements that assign to
  \<open>output\<close> in turn, each returning the new value or raising: the \<open>except\<close>
  clause returns the value \<open>output\<close> has when the exception arrives.
\<close>

definition strip_artifacts_with ::
  "(pytext \<Rightarrow> exn + pytext) \<Rightarrow> (pytext \<Rightarrow> exn + pytext) \<Rightarrow> (pytext \<Rightarrow> exn + pytext) \<Rightarrow>
   pytext \<Rightarrow> exn + pytext" where
  "strip_artifacts_with statement1 statement2 statement3 output =
     (case statement1 output of
        Inl e \<Rightarrow> Inr output
      | Inr output1 \<Rightarrow>
     (case statement2 output1 of
        Inl e \<Rightarrow> Inr output1
      | Inr output2 \<Rightarrow>
     (case statement3 output2 of
        Inl e \<Rightarrow> Inr output2
      | Inr output3 \<Rightarrow> Inr output3)))"

text \<open>The function, with its three statements of lines 68 to 70.\<close>

definition strip_artifacts :: "pytext \<Rightarrow> exn + pytext" where
  "strip_artifacts output =
     strip_artifacts_with (re_sub_strip sub_leading_label) (re_sub_strip sub_line_label)
       (re_sub_strip sub_email) output"

text \<open>A statement that raises, to see what the handler returns then.\<close>

definition raising_statement :: "pytext \<Rightarrow> exn + pytext" where
  "raising_statement output = Inl OtherException"

section \<open>Occurrences of the patterns\<close>

text \<open>Some suffix of \<open>s\<close> begins with the literal \<open>pat\<close>, ignoring case.\<close>

fun contains_literal :: "pytext \<Rightarrow> pytext \<Rightarrow> bool" where
  "contains_literal pat [] = match_literal pat []"
| "contains_literal pat (c # cs) = (match_literal pat (c # cs) \<or> contains_literal pat cs)"

text \<open>
  \<open>s\<close> begins with a match of \<open>\n\s*Final Answer:\<close>: a line feed, whitespace, the
  label.
\<close>

definition line_label_at :: "pytext \<Rightarrow> bool" where
  "line_label_at s =
     (case s of [] \<Rightarrow> False
      | c # cs \<Rightarrow> c = newline \<and> match_literal final_answer (dropWhile is_space cs))"

fun contains_line_label :: "pytext \<Rightarrow> bool" where
  "contains_line_label [] = False"
| "contains_line_label (c # cs) = (line_label_at (c # cs) \<or> contains_line_label cs)"

text \<open>No whitespace at either end.\<close>

definition stripped :: "pytext \<Rightarrow> bool" where
  "stripped s = (s = [] \<or> (\<not> is_space (hd s) \<and> \<not> is_space (last s)))"

section \<open>Identifiers\<close>

text \<open>
  \<open>str(uuid.uuid4())\<close>.  \<open>uuid4\<close> takes sixteen random bytes from the operating
  system (here the 128-bit number they form), sets the variant bits to \<open>10\<close> and the
  version to 4; \<open>str\<close> prints the number as 32 lowercase hexadecimal digits in
  groups of 8, 4, 4, 4 and 12, separated by hyphens.
\<close>

definition uuid4 :: "128 word \<Rightarrow> 128 word" where
  "uuid4 random =
     (((random AND NOT (push_bit 48 0xc000)) OR push_bit 48 0x8000)
        AND NOT (push_bit 64 0xf000)) OR push_bit 76 4"

definition hex_digit :: "nat \<Rightarrow> nat" where
  "hex_digit d = (if d < 10 then 48 + d else 87 + d)"

definition hex32 :: "128 word \<Rightarrow> pytext" where
  "hex32 w = map (\<lambda>i. hex_digit (unat (drop_bit (4 * (31 - i)) w AND 15))) [0..<32]"

definition uuid_str :: "128 word \<Rightarrow> pytext" where
  "uuid_str w =
     (let hex = hex32 w in
      take 8 hex @ str ''-'' @ take 4 (drop 8 hex) @ str ''-'' @ take 4 (drop 12 hex) @
      str ''-'' @ take 4 (drop 16 hex) @ str ''-'' @ drop 20 hex)"

text \<open>A lowercase hexadecimal digit: \<open>0\<close> to \<open>9\<close> or \<open>a\<close> to \<open>f\<close>.\<close>

definition is_hex_digit :: "nat \<Rightarrow> bool" where
  "is_hex_digit c \<longleftrightarrow> (48 \<le> c \<and> c \<le> 57) \<or> (97 \<le> c \<and> c \<le> 102)"

section \<open>Conversation memory\<close>

text \<open>
  \<open>ConversationBufferWindowMemory\<close> is LangChain's class.  Its chat memory is a list of
  messages; \<open>save_context\<close> appends the question as a human message and the answer as
  an AI message; the buffer that \<open>load_memory_variables\<close> renders is the slice
  \<open>messages[-k * 2:]\<close> (empty when \<open>k\<close> is 0), one line \<open>Human: ...\<close> or
  \<open>AI: ...\<close> per message.
\<close>

datatype message = HumanMessage pytext | AIMessage pytext

record memory =
  window_k :: nat
  chat_messages :: "message list"

definition save_context :: "memory \<Rightarrow> pytext \<Rightarrow> pytext \<Rightarrow> memory" where
  "save_context m q a = m\<lparr>chat_messages := chat_messages m @ [HumanMessage q, AIMessage a]\<rparr>"

definition buffer_messages :: "memory \<Rightarrow> message list" where
  "buffer_messages m =
     (if window_k m > 0
      then drop (length (chat_messages m) - window_k m * 2) (chat_messages m)
      else [])"

fun message_line :: "message \<Rightarrow> pytext" where
  "message_line (HumanMessage c) = str ''Human: '' @ c"
| "message_line (AIMessage c) = str ''AI: '' @ c"

text \<open>\<open>sep.join(parts)\<close>.\<close>

fun join :: "pytext \<Rightarrow> pytext list \<Rightarrow> pytext" where
  "join sep [] = []"
| "join sep [p] = p"
| "join sep (p # q # ps) = p @ sep @ join sep (q # ps)"

definition buffer_as_str :: "memory \<Rightarrow> pytext" where
  "buffer_as_str m = join [newline] (map message_line (buffer_messages m))"

text \<open>
  \<open>s.replace(old, new)\<close> for a non-empty \<open>old\<close> (both calls of the source pass a
  non-empty literal): the occurrences of \<open>old\<close>, found from the left without overlap,
  are replaced.
\<close>

function replace :: "pytext \<Rightarrow> pytext \<Rightarrow> pytext \<Rightarrow> pytext" where
  "replace old new [] = []"
| "replace old new (c # cs) =
     (if old \<noteq> [] \<and> take (length old) (c # cs) = old
      then new @ replace old new (drop (length old) (c # cs))
      else c # replace old new cs)"
  by pat_completeness auto
termination
proof (relation "measure (\<lambda>(old, new, s). length s)")
  fix old new :: pytext and c :: nat and cs :: pytext
  assume "old \<noteq> [] \<and> take (length old) (c # cs) = old"
  then have "0 < length old"
    by simp
  then show "((old, new, drop (length old) (c # cs)), old, new, c # cs)
               \<in> measure (\<lambda>(old, new, s). length s)"
    by simp
qed simp_all

text \<open>The exchanges of a list of messages: each human message with the AI message after it.\<close>

fun exchanges_of :: "message list \<Rightarrow> (pytext \<times> pytext) list" where
  "exchanges_of (HumanMessage q # AIMessage a # ms) = (q, a) # exchanges_of ms"
| "exchanges_of ms = []"

text \<open>What the session holds for later turns: the exchanges of its buffer.\<close>

definition session_exchanges :: "memory \<Rightarrow> (pytext \<times> pytext) list" where
  "session_exchanges m = exchanges_of (buffer_messages m)"

section \<open>Collaborators\<close>

text \<open>
  What one call of \<open>answer_question\<close> meets outside the module.  Logging is left out:
  it changes nothing the functions return or store.

  \<^item> \<open>get_retriever\<close> (module \<open>new_content\<close>) raises, returns \<open>None\<close> or returns a
    retriever; \<open>retriever.invoke\<close> raises or returns documents, given here by their
    \<open>page_content\<close>.
  \<^item> \<open>OPENAI_API_KEY\<close> is the environment variable, \<open>ChatOpenAI\<close> the outcome of
    constructing the client, \<open>chain_invoke\<close> the outcome of
    \<open>(rag_prompt | llm | StrOutputParser()).invoke\<close> on its four inputs.
  \<^item> The constructor of the memory, \<open>save_context\<close> and \<open>load_memory_variables\<close>
    may raise.
  \<^item> \<open>urandom_query\<close> and \<open>urandom_conversation\<close> are the random bytes of the two
    calls of \<open>uuid.uuid4\<close>.
\<close>

type_synonym retriever = "pytext \<Rightarrow> exn + pytext list"

record chain_input =
  in_domain_instructions :: pytext
  in_context :: pytext
  in_chat_history :: pytext
  in_question :: pytext

record env =
  DOMAIN_INSTRUCTIONS :: pytext
  OPENAI_API_KEY :: "pytext option"
  get_retriever :: "exn + retriever option"
  ChatOpenAI :: "exn option"
  chain_invoke :: "chain_input \<Rightarrow> exn + pytext"
  memory_init_raises :: "exn option"
  save_context_raises :: "exn option"
  load_memory_variables_raises :: "exn option"
  urandom_query :: "128 word"
  urandom_conversation :: "128 word"

section \<open>\<open>get_llm\<close> and \<open>format_chat_history\<close>\<close>

definition get_llm :: "env \<Rightarrow> exn + unit" where
  "get_llm e =
     (case OPENAI_API_KEY e of
        None \<Rightarrow> Inl ValueError
      | Some key \<Rightarrow>
          if key = [] then Inl ValueError
          else (case ChatOpenAI e of Some x \<Rightarrow> Inl x | None \<Rightarrow> Inr ()))"

definition format_chat_history :: "env \<Rightarrow> memory \<Rightarrow> pytext" where
  "format_chat_history e m =
     (case load_memory_variables_raises e of
        Some x \<Rightarrow> str ''Error accessing chat history.''
      | None \<Rightarrow>
          let chat_history = buffer_as_str m in
          if chat_history = [] then str ''No previous conversation history.''
          else str ''Conversation History:'' @ [newline] @
               replace (str ''Assistant: '') (str ''AI: '')
                 (replace (str ''Human: '') (str ''User: '') chat_history))"

section \<open>\<open>handle_query\<close>\<close>

definition msg_empty_query :: pytext where
  "msg_empty_query =
     str ''I'm sorry, it seems you didn't provide a question. How can I assist you today?''"

definition msg_information_system :: pytext where
  "msg_information_system =
     str ''I'm sorry, we're experiencing an issue with our information system. Please try again later or contact support.''"

definition msg_retrieve :: pytext where
  "msg_retrieve =
     str ''I'm sorry, I couldn't retrieve the necessary information. Please try rephrasing your question or contact our support team.''"

definition msg_processing :: pytext where
  "msg_processing =
     str ''I'm sorry, there was an issue processing your request. Please try again or contact support for assistance.''"

definition msg_unexpected :: pytext where
  "msg_unexpected =
     str ''An unexpected error occurred. Please try again later or reach out to our support team.''"

definition msg_critical :: pytext where
  "msg_critical =
     str ''We're sorry, an unexpected error occurred. Please try again later or contact our support team for assistance.''"

text \<open>The body of the outer \<open>try\<close>: the returned text or the exception that leaves it, and the memory.\<close>

definition handle_query_try :: "env \<Rightarrow> pytext \<Rightarrow> memory \<Rightarrow> (exn + pytext) \<times> memory" where
  "handle_query_try e input_str m =
     (if strip input_str = [] then (Inr msg_empty_query, m)
      else
        case get_retriever e of
          Inl x \<Rightarrow> (Inl x, m)
        | Inr None \<Rightarrow> (Inr msg_information_system, m)
        | Inr (Some retriever) \<Rightarrow>
            (case retriever input_str of
               Inl x \<Rightarrow> (Inr msg_retrieve, m)
             | Inr docs \<Rightarrow>
                 let context =
                       (if docs = [] then []
                        else join [newline, newline] (filter (\<lambda>d. d \<noteq> []) docs));
                     chat_history = format_chat_history e m
                 in
                 case (case get_llm e of
                         Inl x \<Rightarrow> Inl x
                       | Inr llm \<Rightarrow>
                           chain_invoke e
                             \<lparr>in_domain_instructions = DOMAIN_INSTRUCTIONS e,
                              in_context = context,
                              in_chat_history = chat_history,
                              in_question = input_str\<rparr>) of
                   Inl x \<Rightarrow>
                     if x = LangChainException then (Inr msg_processing, m)
                     else (Inr msg_unexpected, m)
                 | Inr output \<Rightarrow>
                     (case strip_artifacts output of
                        Inl x \<Rightarrow> (Inl x, m)
                      | Inr output' \<Rightarrow>
                          (case save_context_raises e of
                             Some x \<Rightarrow> (Inr output', m)
                           | None \<Rightarrow> (Inr output', save_context m input_str output')))))"

definition handle_query :: "env \<Rightarrow> pytext \<Rightarrow> memory \<Rightarrow> (exn + pytext) \<times> memory" where
  "handle_query e input_str m =
     (case handle_query_try e input_str m of
        (Inl x, m') \<Rightarrow> (Inr msg_critical, m')
      | (Inr output, m') \<Rightarrow> (Inr output, m'))"

section \<open>\<open>answer_question\<close>\<close>

record result =
  answer :: pytext
  conversation_id :: pytext

type_synonym memories = "pytext \<rightharpoonup> memory"

definition msg_no_question :: pytext where
  "msg_no_question = str ''It looks like you didn't ask a question. How can I help you today?''"

definition msg_setup :: pytext where
  "msg_setup = str ''I'm sorry, there was an issue setting up the conversation. Please try again.''"

definition msg_error :: pytext where
  "msg_error = str ''We're sorry, an unexpected error occurred. Please try again or contact support.''"

text \<open>\<open>conversation_id or str(uuid.uuid4())\<close>: \<open>None\<close> and the empty string are both false.\<close>

definition resolve_conversation_id :: "env \<Rightarrow> pytext option \<Rightarrow> pytext" where
  "resolve_conversation_id e given =
     (case given of
        None \<Rightarrow> uuid_str (uuid4 (urandom_conversation e))
      | Some c \<Rightarrow> if c \<noteq> [] then c else uuid_str (uuid4 (urandom_conversation e)))"

definition new_memory :: memory where
  "new_memory = \<lparr>window_k = 5, chat_messages = []\<rparr>"

text \<open>
  The body of the \<open>try\<close>, for the resolved id \<open>cid\<close>.  The memory is an object of the
  dictionary, so what \<open>handle_query\<close> does to it is seen under its key.
\<close>

definition answer_question_try ::
  "env \<Rightarrow> memories \<Rightarrow> pytext \<Rightarrow> pytext \<Rightarrow> (exn + result) \<times> memories" where
  "answer_question_try e ms user_question cid =
     (if strip user_question = []
      then (Inr \<lparr>answer = msg_no_question, conversation_id = cid\<rparr>, ms)
      else
        case (if ms cid = None
              then (case memory_init_raises e of
                      Some x \<Rightarrow> Inl x
                    | None \<Rightarrow> Inr (ms(cid \<mapsto> new_memory)))
              else Inr ms) of
          Inl x \<Rightarrow> (Inr \<lparr>answer = msg_setup, conversation_id = cid\<rparr>, ms)
        | Inr ms1 \<Rightarrow>
            (case ms1 cid of
               None \<Rightarrow> (Inl KeyError, ms1)
             | Some m \<Rightarrow>
                 (case handle_query e user_question m of
                    (Inl x, m') \<Rightarrow> (Inl x, ms1(cid \<mapsto> m'))
                  | (Inr output, m') \<Rightarrow>
                      (Inr \<lparr>answer = output, conversation_id = cid\<rparr>, ms1(cid \<mapsto> m')))))"

definition answer_question ::
  "env \<Rightarrow> memories \<Rightarrow> pytext \<Rightarrow> pytext option \<Rightarrow> (exn + result) \<times> memories" where
  "answer_question e ms user_question given =
     (let query_id = uuid_str (uuid4 (urandom_query e));
          cid = resolve_conversation_id e given
      in case answer_question_try e ms user_question cid of
           (Inl x, ms') \<Rightarrow> (Inr \<lparr>answer = msg_error, conversation_id = cid\<rparr>, ms')
         | (Inr r, ms') \<Rightarrow> (Inr r, ms'))"

section \<open>Sequences of calls\<close>

text \<open>
  The dictionary after a list of calls, each with its own surroundings, question and
  optional conversation id.
\<close>

fun run :: "memories \<Rightarrow> (env \<times> pytext \<times> pytext option) list \<Rightarrow> memories" where
  "run ms [] = ms"
| "run ms ((e, q, given) # calls) = run (snd (answer_question e ms q given)) calls"

text \<open>The memory of a conversation: the one stored under its id, a new one if there is none.\<close>

definition session :: "memories \<Rightarrow> pytext \<Rightarrow> memory" where
  "session ms cid = (case ms cid of None \<Rightarrow> new_memory | Some m \<Rightarrow> m)"

text \<open>The messages of a list of exchanges, and all the exchanges a memory stores.\<close>

definition exchange_messages :: "(pytext \<times> pytext) list \<Rightarrow> message list" where
  "exchange_messages xs = concat (map (\<lambda>(q, a). [HumanMessage q, AIMessage a]) xs)"

definition stored_exchanges :: "memory \<Rightarrow> (pytext \<times> pytext) list" where
  "stored_exchanges m = exchanges_of (chat_messages m)"

definition answer_of :: "exn + result \<Rightarrow> pytext" where
  "answer_of r = (case r of Inl x \<Rightarrow> [] | Inr res \<Rightarrow> answer res)"

text \<open>
  The successful exchanges of the conversation \<open>cid\<close> in a list of calls: the calls
  for \<open>cid\<close> after which its memory has more messages than before, each with its
  question and the answer returned.  Calls for other conversations and calls that store
  nothing may come between them.
\<close>

fun transcript ::
  "memories \<Rightarrow> pytext \<Rightarrow> (env \<times> pytext \<times> pytext option) list \<Rightarrow> (pytext \<times> pytext) list" where
  "transcript ms cid [] = []"
| "transcript ms cid ((e, q, given) # calls) =
     (case answer_question e ms q given of
        (r, ms') \<Rightarrow>
          (if resolve_conversation_id e given = cid \<and>
              length (chat_messages (session ms cid)) < length (chat_messages (session ms' cid))
           then [(q, answer_of r)] else []) @
          transcript ms' cid calls)"

text \<open>
  Every stage of a call succeeds: the question is not blank, the memory can be created,
  the retriever returns documents for the question, the client is built, the chain
  returns a text, and the memory accepts the exchange.
\<close>

definition all_stages_succeed :: "env \<Rightarrow> pytext \<Rightarrow> bool" where
  "all_stages_succeed e q \<longleftrightarrow>
     strip q \<noteq> [] \<and> memory_init_raises e = None \<and>
     (\<exists>retriever docs. get_retriever e = Inr (Some retriever) \<and> retriever q = Inr docs) \<and>
     get_llm e = Inr () \<and> (\<forall>inp. \<exists>output. chain_invoke e inp = Inr output) \<and>
     save_context_raises e = None"

text \<open>The fixed responses of the two functions.\<close>

definition fixed_responses :: "pytext list" where
  "fixed_responses =
     [msg_no_question, msg_setup, msg_error, msg_empty_query, msg_information_system,
      msg_retrieve, msg_processing, msg_unexpected, msg_critical]"

section \<open>Example surroundings\<close>

text \<open>
  A retriever that finds no documents, one whose \<open>invoke\<close> raises, a chain that
  answers with the question behind the label, and one that raises.
\<close>

definition no_documents :: retriever where
  "no_documents q = Inr []"

definition raising_retriever :: retriever where
  "raising_retriever q = Inl OtherException"

definition echo_chain :: "chain_input \<Rightarrow> exn + pytext" where
  "echo_chain inp = Inr (str ''Final Answer: You asked: '' @ in_question inp)"

definition raising_chain :: "exn \<Rightarrow> chain_input \<Rightarrow> exn + pytext" where
  "raising_chain x inp = Inl x"

definition example_env :: env where
  "example_env =
     \<lparr>DOMAIN_INSTRUCTIONS = [], OPENAI_API_KEY = Some (str ''sk-test''),
      get_retriever = Inr (Some no_documents), ChatOpenAI = None,
      chain_invoke = echo_chain, memory_init_raises = None,
      save_context_raises = None, load_memory_variables_raises = None,
      urandom_query = 1, urandom_conversation = 2\<rparr>"

text \<open>
  Eight calls: six successful exchanges of the conversation \<open>c1\<close>, and between them a
  call for \<open>c1\<close> that finds no retriever and a call for another conversation.
\<close>

definition example_calls :: "(env \<times> pytext \<times> pytext option) list" where
  "example_calls =
     [(example_env, str ''q1'', Some (str ''c1'')),
      (example_env, str ''q2'', Some (str ''c1'')),
      (example_env\<lparr>get_retriever := Inr None\<rparr>, str ''lost'', Some (str ''c1'')),
      (example_env, str ''q3'', Some (str ''c1'')),
      (example_env, str ''other'', Some (str ''c2'')),
      (example_env, str ''q4'', Some (str ''c1'')),
      (example_env, str ''q5'', Some (str ''c1'')),
      (example_env, str ''q6'', Some (str ''c1''))]"

section \<open>Facts about text\<close>

lemma strip_artifacts_eq:
  "strip_artifacts x =
     Inr (strip (sub_email (strip (sub_line_label (strip (sub_leading_label x))))))"
  by (simp add: strip_artifacts_def strip_artifacts_with_def re_sub_strip_def)

lemma last_dropWhile: "dropWhile P xs \<noteq> [] \<Longrightarrow> last (dropWhile P xs) = last xs"
  by (induction xs) (auto split: if_splits)

lemma stripped_strip: "stripped (strip s)"
proof (cases "strip s = []")
  case True
  then show ?thesis by (simp add: stripped_def)
next
  case False
  define t where "t = dropWhile is_space s"
  define u where "u = dropWhile is_space (rev t)"
  have s: "strip s = rev u" by (simp add: strip_def t_def u_def)
  with False have u: "u \<noteq> []" by simp
  then have t: "t \<noteq> []" by (auto simp: u_def)
  have "\<not> is_space (hd u)" using u unfolding u_def by (rule hd_dropWhile)
  then have 1: "\<not> is_space (last (strip s))" using u by (simp add: s last_rev)
  have "last u = last (rev t)" using u unfolding u_def by (rule last_dropWhile)
  then have "hd (strip s) = hd t" using u t by (simp add: s hd_rev last_rev)
  moreover have "\<not> is_space (hd t)" using t unfolding t_def by (rule hd_dropWhile)
  ultimately show ?thesis using 1 by (simp add: stripped_def)
qed

lemma strip_stripped: "stripped s \<Longrightarrow> strip s = s"
proof (cases s)
  case Nil
  then show ?thesis by (simp add: strip_def)
next
  case (Cons c cs)
  assume "stripped s"
  with Cons have a: "\<not> is_space (hd s)" and b: "\<not> is_space (last s)" and n: "s \<noteq> []"
    by (simp_all add: stripped_def)
  have 1: "dropWhile is_space s = s" using a n by (cases s) simp_all
  have "rev s \<noteq> []" "\<not> is_space (hd (rev s))" using b n by (simp_all add: hd_rev)
  then have 2: "dropWhile is_space (rev s) = rev s" by (cases "rev s") simp_all
  show ?thesis by (simp add: strip_def 1 2)
qed

lemma strip_idem: "strip (strip s) = strip s"
  by (rule strip_stripped) (rule stripped_strip)

lemma match_literal_append: "match_literal p s \<Longrightarrow> match_literal p (s @ t)"
  by (induction p s rule: match_literal.induct) simp_all

lemma match_literal_take: "match_literal p (take n s) \<Longrightarrow> match_literal p s"
  using match_literal_append [of p "take n s" "drop n s"] by simp

lemma contains_literal_iff:
  "contains_literal p s \<longleftrightarrow> (\<exists>i\<le>length s. match_literal p (drop i s))"
proof (induction s)
  case Nil
  then show ?case by simp
next
  case (Cons c cs)
  show ?case
  proof
    assume "contains_literal p (c # cs)"
    then consider "match_literal p (c # cs)" | "contains_literal p cs" by auto
    then show "\<exists>i\<le>length (c # cs). match_literal p (drop i (c # cs))"
    proof cases
      case 1
      then have "match_literal p (drop 0 (c # cs))" by simp
      then show ?thesis by blast
    next
      case 2
      with Cons obtain i where "i \<le> length cs" "match_literal p (drop i cs)" by blast
      then have "Suc i \<le> length (c # cs)" "match_literal p (drop (Suc i) (c # cs))" by simp_all
      then show ?thesis by blast
    qed
  next
    assume "\<exists>i\<le>length (c # cs). match_literal p (drop i (c # cs))"
    then obtain i where i: "i \<le> length (c # cs)" "match_literal p (drop i (c # cs))" by blast
    show "contains_literal p (c # cs)"
    proof (cases i)
      case 0
      with i show ?thesis by simp
    next
      case (Suc j)
      with i have "j \<le> length cs" "match_literal p (drop j cs)" by simp_all
      with Cons show ?thesis by auto
    qed
  qed
qed

lemma contains_literal_drop: "contains_literal p (drop n s) \<Longrightarrow> contains_literal p s"
proof -
  assume "contains_literal p (drop n s)"
  then obtain i where i: "i \<le> length (drop n s)" "match_literal p (drop i (drop n s))"
    by (auto simp: contains_literal_iff)
  show ?thesis
  proof (cases "n \<le> length s")
    case True
    with i have "i + n \<le> length s" "match_literal p (drop (i + n) s)" by simp_all
    then show ?thesis unfolding contains_literal_iff by blast
  next
    case False
    with i have "match_literal p (drop (length s) s)" by simp
    then show ?thesis unfolding contains_literal_iff by blast
  qed
qed

lemma contains_literal_take: "contains_literal p (take n s) \<Longrightarrow> contains_literal p s"
proof -
  assume "contains_literal p (take n s)"
  then obtain i where i: "i \<le> length (take n s)" "match_literal p (drop i (take n s))"
    by (auto simp: contains_literal_iff)
  then have "match_literal p (take (n - i) (drop i s))" by (simp add: drop_take)
  then have "match_literal p (drop i s)" by (rule match_literal_take)
  moreover have "i \<le> length s" using i by simp
  ultimately show ?thesis unfolding contains_literal_iff by blast
qed

lemma contains_literal_dropWhile:
  "contains_literal p (dropWhile P s) \<Longrightarrow> contains_literal p s"
proof -
  have "dropWhile P s = drop (length (takeWhile P s)) s"
    by (rule dropWhile_eq_drop)
  then show "contains_literal p (dropWhile P s) \<Longrightarrow> contains_literal p s"
    using contains_literal_drop by metis
qed

lemma strip_take_drop: "\<exists>n m. strip s = take n (drop m s)"
proof -
  define t where "t = dropWhile is_space s"
  have "dropWhile is_space (rev t) = drop (length (takeWhile is_space (rev t))) (rev t)"
    by (rule dropWhile_eq_drop)
  then have "strip s = rev (drop (length (takeWhile is_space (rev t))) (rev t))"
    by (simp add: strip_def t_def)
  then have "strip s = take (length t - length (takeWhile is_space (rev t))) t"
    by (simp add: rev_drop)
  moreover have "t = drop (length (takeWhile is_space s)) s"
    unfolding t_def by (rule dropWhile_eq_drop)
  ultimately show ?thesis by metis
qed

lemma contains_literal_strip: "contains_literal p (strip s) \<Longrightarrow> contains_literal p s"
proof -
  assume a: "contains_literal p (strip s)"
  obtain n m where "strip s = take n (drop m s)" using strip_take_drop by blast
  with a have "contains_literal p (take n (drop m s))" by simp
  then show ?thesis by (blast intro: contains_literal_take contains_literal_drop)
qed

lemmas pattern_defs = final_answer_def email_protected_def correct_email_def str_def
  matches_ignorecase_def lower_ascii_def newline_def

lemma length_email_protected: "length email_protected = 17"
  by (simp add: email_protected_def str_def)

lemma length_final_answer: "length final_answer = 13"
  by (simp add: final_answer_def str_def)

lemma match_email_hd: "match_literal email_protected (c # cs) \<Longrightarrow> c = 91"
  by (simp add: pattern_defs)

lemma email_tail_not_replacement:
  "list_all (\<lambda>k. \<not> match_literal (drop k email_protected) (correct_email @ r)) [1..<17]"
  by (simp add: pattern_defs upt_rec [of _ "numeral _"] upt_rec [of _ 1])

lemma email_tail_not_replacement_nth:
  "1 \<le> k \<Longrightarrow> k < 17 \<Longrightarrow> \<not> match_literal (drop k email_protected) (correct_email @ r)"
  using email_tail_not_replacement [of r] by (simp add: list_all_iff)

lemma match_tail_sub_email:
  "1 \<le> k \<Longrightarrow> match_literal (drop k email_protected) (sub_email s) \<Longrightarrow>
   match_literal (drop k email_protected) s"
proof (induction s arbitrary: k rule: sub_email.induct)
  case 1
  then show ?case by simp
next
  case (2 c cs)
  show ?case
  proof (cases "k < 17")
    case False
    then show ?thesis by (simp add: length_email_protected)
  next
    case k: True
    show ?thesis
    proof (cases "match_literal email_protected (c # cs)")
      case True
      with "2.prems" k show ?thesis
        using email_tail_not_replacement_nth [of k] by simp
    next
      case False
      have d: "drop k email_protected = email_protected ! k # drop (Suc k) email_protected"
        using k by (simp add: Cons_nth_drop_Suc length_email_protected)
      from "2.prems"(2) False
      have m: "matches_ignorecase (email_protected ! k) c"
        and r: "match_literal (drop (Suc k) email_protected) (sub_email cs)"
        by (simp_all add: d)
      from "2.IH"(2) [OF False _ r] have "match_literal (drop (Suc k) email_protected) cs"
        by simp
      with m show ?thesis by (simp add: d)
    qed
  qed
qed

lemma contains_email_skip:
  "91 \<notin> set a \<Longrightarrow> contains_literal email_protected (a @ s) \<Longrightarrow>
   contains_literal email_protected s"
proof (induction a)
  case Nil
  then show ?case by simp
next
  case (Cons x a)
  then show ?case using match_email_hd [of x "a @ s"] by auto
qed

lemma correct_email_no_bracket: "91 \<notin> set correct_email"
  by (simp add: correct_email_def str_def)

lemma email_protected_Cons: "email_protected = 91 # drop 1 email_protected"
  by (simp add: email_protected_def str_def)

lemma no_email_sub_email: "\<not> contains_literal email_protected (sub_email s)"
proof (induction s rule: sub_email.induct)
  case 1
  then show ?case by (simp add: email_protected_def str_def)
next
  case (2 c cs)
  show ?case
  proof (cases "match_literal email_protected (c # cs)")
    case True
    with 2 show ?thesis
      using contains_email_skip [OF correct_email_no_bracket] by auto
  next
    case False
    have "\<not> match_literal email_protected (c # sub_email cs)"
    proof
      assume "match_literal email_protected (c # sub_email cs)"
      then have "match_literal (91 # drop 1 email_protected) (c # sub_email cs)"
        by (subst (asm) email_protected_Cons)
      then have c: "matches_ignorecase 91 c"
        and t: "match_literal (drop 1 email_protected) (sub_email cs)"
        by (simp_all del: One_nat_def)
      have "match_literal (drop 1 email_protected) cs"
        by (rule match_tail_sub_email [OF order_refl t])
      with c have "match_literal (91 # drop 1 email_protected) (c # cs)"
        by (simp del: One_nat_def)
      then have "match_literal email_protected (c # cs)"
        by (subst email_protected_Cons)
      with False show False by contradiction
    qed
    with 2 False show ?thesis by simp
  qed
qed

lemma sub_email_id: "\<not> contains_literal email_protected s \<Longrightarrow> sub_email s = s"
  by (induction s) simp_all

lemma sub_line_label_id: "\<not> contains_line_label s \<Longrightarrow> sub_line_label s = s"
  by (induction s) (auto simp: line_label_at_def)

lemma sub_leading_label_id: "\<not> match_literal final_answer s \<Longrightarrow> sub_leading_label s = s"
  by (simp add: sub_leading_label_def)

lemma match_literal_contains: "match_literal p s \<Longrightarrow> contains_literal p s"
  by (cases s) simp_all

lemma line_label_contains:
  "contains_line_label s \<Longrightarrow> contains_literal final_answer s"
proof (induction s)
  case Nil
  then show ?case by simp
next
  case (Cons c cs)
  show ?case
  proof (cases "line_label_at (c # cs)")
    case True
    then have "match_literal final_answer (dropWhile is_space cs)"
      by (simp add: line_label_at_def)
    then have "contains_literal final_answer cs"
      by (blast intro: match_literal_contains contains_literal_dropWhile)
    then show ?thesis by simp
  next
    case False
    with Cons show ?thesis by simp
  qed
qed

lemma sub_leading_label_match:
  assumes "match_literal final_answer l" and "length l = length final_answer"
    and "\<forall>c\<in>set w. is_space c" and "r = [] \<or> \<not> is_space (hd r)"
  shows "sub_leading_label (l @ w @ r) = r"
proof -
  have "match_literal final_answer (l @ w @ r)"
    using assms(1) by (rule match_literal_append)
  moreover have "dropWhile is_space (w @ r) = r"
    using assms(3,4) by (cases r) (simp_all add: dropWhile_append3)
  ultimately show ?thesis
    using assms(2) by (simp add: sub_leading_label_def)
qed

lemma sub_line_label_skip:
  "\<forall>i<length a. \<not> line_label_at (drop i (a @ s)) \<Longrightarrow>
   sub_line_label (a @ s) = a @ sub_line_label s"
proof (induction a)
  case Nil
  then show ?case by simp
next
  case (Cons c a)
  from Cons.prems have "\<not> line_label_at (drop 0 ((c # a) @ s))"
    by blast
  then have 0: "\<not> (c = newline \<and> match_literal final_answer (dropWhile is_space (a @ s)))"
    by (simp add: line_label_at_def)
  have "\<forall>i<length a. \<not> line_label_at (drop i (a @ s))"
  proof (intro allI impI)
    fix i assume "i < length a"
    then have "Suc i < length (c # a)" by simp
    with Cons.prems have "\<not> line_label_at (drop (Suc i) ((c # a) @ s))" by blast
    then show "\<not> line_label_at (drop i (a @ s))" by simp
  qed
  then have "sub_line_label (a @ s) = a @ sub_line_label s"
    by (rule Cons.IH)
  with 0 show ?case by auto
qed

lemma match_final_answer_hd: "match_literal final_answer (c # cs) \<Longrightarrow> \<not> is_space c"
  by (auto simp: pattern_defs is_space_def split: if_splits)

lemma sub_line_label_match:
  assumes "\<forall>c\<in>set w1. is_space c" and "match_literal final_answer l"
    and "length l = length final_answer"
    and "\<forall>c\<in>set w2. is_space c" and "r = [] \<or> \<not> is_space (hd r)"
  shows "sub_line_label (newline # w1 @ l @ w2 @ r) = newline # sub_line_label r"
proof -
  obtain c cs where c: "l = c # cs"
    using assms(3) by (cases l) (simp_all add: length_final_answer)
  then have "\<not> is_space c"
    using assms(2) match_final_answer_hd by blast
  then have 1: "dropWhile is_space (w1 @ l @ w2 @ r) = l @ w2 @ r"
    using assms(1) by (simp add: c dropWhile_append3)
  have 2: "match_literal final_answer (l @ w2 @ r)"
    using assms(2) by (rule match_literal_append)
  have 3: "dropWhile is_space (w2 @ r) = r"
    using assms(4,5) by (cases r) (simp_all add: dropWhile_append3)
  show ?thesis
    using assms(3) by (simp add: 1 2 3)
qed

lemma sub_email_skip:
  "\<forall>i<length a. \<not> match_literal email_protected (drop i (a @ s)) \<Longrightarrow>
   sub_email (a @ s) = a @ sub_email s"
proof (induction a)
  case Nil
  then show ?case by simp
next
  case (Cons c a)
  from Cons.prems have "\<not> match_literal email_protected (drop 0 ((c # a) @ s))"
    by blast
  then have 0: "\<not> match_literal email_protected (c # a @ s)"
    by simp
  have "\<forall>i<length a. \<not> match_literal email_protected (drop i (a @ s))"
  proof (intro allI impI)
    fix i assume "i < length a"
    then have "Suc i < length (c # a)" by simp
    with Cons.prems have "\<not> match_literal email_protected (drop (Suc i) ((c # a) @ s))"
      by blast
    then show "\<not> match_literal email_protected (drop i (a @ s))" by simp
  qed
  then have "sub_email (a @ s) = a @ sub_email s"
    by (rule Cons.IH)
  with 0 show ?case by simp
qed

lemma sub_email_match:
  assumes "match_literal email_protected p" and "length p = length email_protected"
  shows "sub_email (p @ r) = correct_email @ sub_email r"
proof -
  have m: "match_literal email_protected (p @ r)"
    using assms(1) by (rule match_literal_append)
  have d: "drop (length email_protected) (p @ r) = r"
    using assms(2) by simp
  obtain c cs where e: "p @ r = c # cs"
    using assms(2) by (cases p) (simp_all add: length_email_protected)
  have "sub_email (c # cs) = correct_email @ sub_email (drop (length email_protected) (c # cs))"
    using m unfolding e by simp
  with d e show ?thesis
    by metis
qed

section \<open>The sanitizer\<close>

text \<open>
  C6, as the specification states it: sanitizing a sanitized text changes nothing.  This
  fails: only the label at the very beginning is removed by the first pass, so of two
  labels in a row the second survives the first sanitization and falls to the next one.
  From \<open>Final Answer: Final Answer: x\<close> the sanitizer makes \<open>Final Answer: x\<close>, and
  from that \<open>x\<close>.
\<close>

theorem strip_artifacts_not_idempotent:
  "strip_artifacts (str ''Final Answer: Final Answer: x'') = Inr (str ''Final Answer: x'') \<and>
   strip_artifacts (str ''Final Answer: x'') \<noteq> Inr (str ''Final Answer: x'')"
  by (simp add: strip_artifacts_eq sub_leading_label_def strip_def is_space_def pattern_defs)

text \<open>
  C6, amended: for every text whose sanitized form neither begins with the label nor has
  the label at the beginning of a line (after a line feed and optional whitespace),
  sanitizing the sanitized form returns it unchanged.
\<close>

theorem strip_artifacts_idempotent_without_label:
  assumes "strip_artifacts x = Inr y"
    and "\<not> match_literal final_answer y"
    and "\<not> contains_line_label y"
  shows "strip_artifacts y = Inr y"
proof -
  from assms(1) obtain t where y: "y = strip (sub_email t)"
    by (auto simp: strip_artifacts_eq)
  have s: "strip y = y" unfolding y by (rule strip_idem)
  have "\<not> contains_literal email_protected y"
    unfolding y using contains_literal_strip no_email_sub_email by blast
  then have e: "sub_email y = y" by (rule sub_email_id)
  show ?thesis
    by (simp add: strip_artifacts_eq sub_leading_label_id [OF assms(2)] s
        sub_line_label_id [OF assms(3)] e)
qed

theorem strip_artifacts_idempotent_without_label_witness:
  "strip_artifacts (str ''Final Answer: write to [email protected] '') =
     Inr (str ''write to the correct email address'') \<and>
   \<not> match_literal final_answer (str ''write to the correct email address'') \<and>
   \<not> contains_line_label (str ''write to the correct email address'') \<and>
   strip_artifacts (str ''write to the correct email address'') =
     Inr (str ''write to the correct email address'')"
proof -
  have 1: "strip_artifacts (str ''Final Answer: write to [email protected] '') =
             Inr (str ''write to the correct email address'')"
    by (simp add: strip_artifacts_eq sub_leading_label_def strip_def is_space_def pattern_defs)
  have 2: "\<not> match_literal final_answer (str ''write to the correct email address'')"
    by (simp add: pattern_defs)
  have 3: "\<not> contains_line_label (str ''write to the correct email address'')"
    by (simp add: line_label_at_def pattern_defs)
  from strip_artifacts_idempotent_without_label [OF 1 2 3] 1 2 3 show ?thesis
    by blast
qed

text \<open>
  C7, as the specification states it: the label is removed wherever it begins a new line.
  This fails: the whitespace after a removed label belongs to the match, so the line feed
  in front of a label on the next line is used up and that label stays, at the beginning
  of a line of the result.
\<close>

theorem strip_artifacts_leaves_line_label:
  "strip_artifacts (str ''a'' @ [newline] @ str ''Final Answer:'' @ [newline] @
                    str ''Final Answer: b'') =
     Inr (str ''a'' @ [newline] @ str ''Final Answer: b'') \<and>
   line_label_at ([newline] @ str ''Final Answer: b'')"
  by (simp add: strip_artifacts_eq sub_leading_label_def strip_def is_space_def
      line_label_at_def pattern_defs)

text \<open>
  C7, amended.  The sanitizer is the composition of three passes, each followed by a
  strip, and compares letters ignoring case.
  (a) A text that begins with the label loses that label and the whitespace after it; a
  text that does not begin with it is left alone.
  (b) The second pass scans from the left: the text before the first line feed that is
  followed by optional whitespace and the label is kept, that line feed, the whitespace,
  the label and the whitespace after the label become one line feed, and the scan goes
  on behind them.
  A text without such a line feed is left as it is by this pass.
  (c) The third pass likewise replaces each occurrence of \<open>[email protected]\<close> by
  \<open>the correct email address\<close> and leaves a text without an occurrence as it is; no
  occurrence is left in the sanitized text.
\<close>

theorem strip_artifacts_passes:
  "strip_artifacts x =
     Inr (strip (sub_email (strip (sub_line_label (strip (sub_leading_label x)))))) \<and>
   (match_literal final_answer l \<and> length l = length final_answer \<and>
    (\<forall>c\<in>set w. is_space c) \<and> (r = [] \<or> \<not> is_space (hd r)) \<longrightarrow>
      sub_leading_label (l @ w @ r) = r) \<and>
   (\<not> match_literal final_answer x \<longrightarrow> sub_leading_label x = x) \<and>
   ((\<forall>i<length a. \<not> line_label_at (drop i (a @ newline # w1 @ l @ w @ r))) \<and>
    (\<forall>c\<in>set w1. is_space c) \<and> match_literal final_answer l \<and>
    length l = length final_answer \<and> (\<forall>c\<in>set w. is_space c) \<and>
    (r = [] \<or> \<not> is_space (hd r)) \<longrightarrow>
      sub_line_label (a @ newline # w1 @ l @ w @ r) = a @ newline # sub_line_label r) \<and>
   (\<not> contains_line_label t \<longrightarrow> sub_line_label t = t) \<and>
   ((\<forall>i<length a. \<not> match_literal email_protected (drop i (a @ p @ r))) \<and>
    match_literal email_protected p \<and> length p = length email_protected \<longrightarrow>
      sub_email (a @ p @ r) = a @ correct_email @ sub_email r) \<and>
   (\<not> contains_literal email_protected t \<longrightarrow> sub_email t = t) \<and>
   (strip_artifacts x = Inr y \<longrightarrow> \<not> contains_literal email_protected y)"
proof (intro conjI)
  show "\<not> contains_line_label t \<longrightarrow> sub_line_label t = t"
    using sub_line_label_id by blast
  show "\<not> contains_literal email_protected t \<longrightarrow> sub_email t = t"
    using sub_email_id by blast
  show "strip_artifacts x =
     Inr (strip (sub_email (strip (sub_line_label (strip (sub_leading_label x))))))"
    by (rule strip_artifacts_eq)
  show "match_literal final_answer l \<and> length l = length final_answer \<and>
        (\<forall>c\<in>set w. is_space c) \<and> (r = [] \<or> \<not> is_space (hd r)) \<longrightarrow>
        sub_leading_label (l @ w @ r) = r"
    using sub_leading_label_match by blast
  show "\<not> match_literal final_answer x \<longrightarrow> sub_leading_label x = x"
    using sub_leading_label_id by blast
  show "(\<forall>i<length a. \<not> line_label_at (drop i (a @ newline # w1 @ l @ w @ r))) \<and>
   (\<forall>c\<in>set w1. is_space c) \<and> match_literal final_answer l \<and>
   length l = length final_answer \<and> (\<forall>c\<in>set w. is_space c) \<and>
   (r = [] \<or> \<not> is_space (hd r)) \<longrightarrow>
     sub_line_label (a @ newline # w1 @ l @ w @ r) = a @ newline # sub_line_label r"
    using sub_line_label_skip [of a "newline # w1 @ l @ w @ r"]
      sub_line_label_match [of w1 l w r] by simp
  show "(\<forall>i<length a. \<not> match_literal email_protected (drop i (a @ p @ r))) \<and>
   match_literal email_protected p \<and> length p = length email_protected \<longrightarrow>
     sub_email (a @ p @ r) = a @ correct_email @ sub_email r"
    using sub_email_skip [of a "p @ r"] sub_email_match [of p r] by simp
  show "strip_artifacts x = Inr y \<longrightarrow> \<not> contains_literal email_protected y"
    using contains_literal_strip no_email_sub_email by (auto simp: strip_artifacts_eq)
qed

theorem strip_artifacts_passes_witness:
  "sub_leading_label (str ''FINAL answer:'' @ str ''  '' @ str ''Hi'') = str ''Hi'' \<and>
   sub_leading_label (str '' Final Answer: Hi'') = str '' Final Answer: Hi'' \<and>
   sub_line_label (str ''So.'' @ newline # str '' '' @ str ''FINAL answer:'' @ str ''  '' @
                   str ''Hi'') = str ''So.'' @ newline # str ''Hi'' \<and>
   sub_email (str ''So.'' @ str ''[Email Protected]'' @ str ''Hi'') =
     str ''So.'' @ str ''the correct email address'' @ str ''Hi'' \<and>
   \<not> contains_literal email_protected (str ''mail the correct email address'')"
proof -
  have 0: "strip_artifacts (str '' Final Answer: Hi'') = Inr (str ''Final Answer: Hi'')"
    "strip_artifacts (str ''mail [email protected]'') =
       Inr (str ''mail the correct email address'')"
    by (simp_all add: strip_artifacts_eq sub_leading_label_def strip_def is_space_def
        pattern_defs)
  have 1: "match_literal final_answer (str ''FINAL answer:'')"
    "length (str ''FINAL answer:'') = length final_answer"
    "\<forall>c\<in>set (str ''  ''). is_space c" "\<forall>c\<in>set (str '' ''). is_space c"
    "str ''Hi'' = [] \<or> \<not> is_space (hd (str ''Hi''))"
    "\<not> match_literal final_answer (str '' Final Answer: Hi'')"
    by (simp_all add: pattern_defs is_space_def)
  have 2: "\<forall>i<length (str ''So.''). \<not> line_label_at (drop i (str ''So.'' @ newline #
             str '' '' @ str ''FINAL answer:'' @ str ''  '' @ str ''Hi''))"
    by (simp add: pattern_defs line_label_at_def All_less_Suc)
  have 3: "\<forall>i<length (str ''So.''). \<not> match_literal email_protected
             (drop i (str ''So.'' @ str ''[Email Protected]'' @ str ''Hi''))"
    "match_literal email_protected (str ''[Email Protected]'')"
    "length (str ''[Email Protected]'') = length email_protected"
    by (simp_all add: pattern_defs All_less_Suc)
  have 4: "\<not> contains_line_label (str ''Hi'')"
    "\<not> contains_literal email_protected (str ''Hi'')"
    by (simp_all add: pattern_defs line_label_at_def)
  have 5: "correct_email = str ''the correct email address''"
    by (rule correct_email_def)
  note A = strip_artifacts_passes
    [where x = "str '' Final Answer: Hi''" and l = "str ''FINAL answer:''" and w = "str ''  ''"
       and r = "str ''Hi''" and a = "str ''So.''" and ?w1.0 = "str '' ''"
       and p = "str ''[Email Protected]''" and y = "str ''Final Answer: Hi''"
       and t = "str ''Hi''"]
  note B = strip_artifacts_passes
    [where x = "str ''mail [email protected]''" and l = "str ''FINAL answer:''"
       and w = "str ''  ''" and r = "str ''Hi''" and a = "str ''So.''" and ?w1.0 = "str '' ''"
       and p = "str ''[Email Protected]''" and y = "str ''mail the correct email address''"
       and t = "str ''Hi''"]
  from A 1 have a: "sub_leading_label (str ''FINAL answer:'' @ str ''  '' @ str ''Hi'') = str ''Hi''"
    by blast
  from A 1 have b: "sub_leading_label (str '' Final Answer: Hi'') = str '' Final Answer: Hi''"
    by blast
  from A 4 have i: "sub_line_label (str ''Hi'') = str ''Hi''" "sub_email (str ''Hi'') = str ''Hi''"
    by blast+
  from A 1 2 have c: "sub_line_label (str ''So.'' @ newline # str '' '' @ str ''FINAL answer:'' @
      str ''  '' @ str ''Hi'') = str ''So.'' @ newline # sub_line_label (str ''Hi'')"
    by blast
  from A 3 have d: "sub_email (str ''So.'' @ str ''[Email Protected]'' @ str ''Hi'') =
      str ''So.'' @ correct_email @ sub_email (str ''Hi'')"
    by blast
  from B 0 have e: "\<not> contains_literal email_protected (str ''mail the correct email address'')"
    by blast
  from a b c d e show ?thesis
    by (simp add: i 5)
qed

text \<open>
  C8, as the specification states it: an internal failure is caught and the original
  input is returned unchanged.  This fails when a later statement is the one that
  fails: \<open>output\<close> was assigned by the statements before it, and the handler returns
  \<open>output\<close>.  With the second statement raising, \<open>Final Answer: hi\<close> comes back as
  \<open>hi\<close>.
\<close>

theorem strip_artifacts_handler_returns_output:
  "strip_artifacts_with (re_sub_strip sub_leading_label) raising_statement
     (re_sub_strip sub_email) (str ''Final Answer: hi'') = Inr (str ''hi'') \<and>
   str ''hi'' \<noteq> str ''Final Answer: hi''"
  by (simp add: strip_artifacts_with_def re_sub_strip_def raising_statement_def
      sub_leading_label_def strip_def is_space_def pattern_defs)

text \<open>
  C8, amended: for every text, the empty one included, the sanitizer returns a text and
  raises nothing, whichever of its statements fails; on a text none of them fails and the
  result is the sanitized text.  When a statement fails, the text returned is the value
  of \<open>output\<close> at that moment: the original input if the first rewrite fails, else the
  result of the rewrites that were completed.
\<close>

theorem strip_artifacts_never_raises:
  "(\<exists>y. strip_artifacts_with s1 s2 s3 x = Inr y) \<and>
   (s1 x = Inl e \<longrightarrow> strip_artifacts_with s1 s2 s3 x = Inr x) \<and>
   (s1 x = Inr x1 \<and> s2 x1 = Inl e \<longrightarrow> strip_artifacts_with s1 s2 s3 x = Inr x1) \<and>
   (s1 x = Inr x1 \<and> s2 x1 = Inr x2 \<and> s3 x2 = Inl e \<longrightarrow>
      strip_artifacts_with s1 s2 s3 x = Inr x2) \<and>
   (s1 x = Inr x1 \<and> s2 x1 = Inr x2 \<and> s3 x2 = Inr x3 \<longrightarrow>
      strip_artifacts_with s1 s2 s3 x = Inr x3) \<and>
   strip_artifacts x =
     Inr (strip (sub_email (strip (sub_line_label (strip (sub_leading_label x)))))) \<and>
   strip_artifacts [] = Inr []"
proof (intro conjI impI)
  show "\<exists>y. strip_artifacts_with s1 s2 s3 x = Inr y"
    by (simp add: strip_artifacts_with_def split: sum.splits)
  show "strip_artifacts x =
     Inr (strip (sub_email (strip (sub_line_label (strip (sub_leading_label x))))))"
    by (rule strip_artifacts_eq)
  show "strip_artifacts [] = Inr []"
    by (simp add: strip_artifacts_eq sub_leading_label_def strip_def pattern_defs)
qed (simp_all add: strip_artifacts_with_def)

theorem strip_artifacts_never_raises_witness:
  "strip_artifacts_with raising_statement (re_sub_strip sub_line_label)
     (re_sub_strip sub_email) (str ''Final Answer: hi'') = Inr (str ''Final Answer: hi'') \<and>
   strip_artifacts_with (re_sub_strip sub_leading_label) (re_sub_strip sub_line_label)
     raising_statement (str ''Final Answer: hi'') = Inr (str ''hi'') \<and>
   strip_artifacts (str ''Final Answer: hi'') = Inr (str ''hi'')"
proof -
  have 1: "raising_statement (str ''Final Answer: hi'') = Inl OtherException"
    "raising_statement (str ''hi'') = Inl OtherException"
    by (simp_all add: raising_statement_def)
  have 2: "re_sub_strip sub_leading_label (str ''Final Answer: hi'') = Inr (str ''hi'')"
    "re_sub_strip sub_line_label (str ''hi'') = Inr (str ''hi'')"
    "re_sub_strip sub_email (str ''hi'') = Inr (str ''hi'')"
    by (simp_all add: re_sub_strip_def sub_leading_label_def strip_def is_space_def
        pattern_defs)
  have 3: "strip_artifacts (str ''Final Answer: hi'') =
           strip_artifacts_with (re_sub_strip sub_leading_label) (re_sub_strip sub_line_label)
             (re_sub_strip sub_email) (str ''Final Answer: hi'')"
    by (rule strip_artifacts_def)
  note A = strip_artifacts_never_raises
    [where ?s1.0 = raising_statement and ?s2.0 = "re_sub_strip sub_line_label"
       and ?s3.0 = "re_sub_strip sub_email" and x = "str ''Final Answer: hi''"
       and e = OtherException]
  note B = strip_artifacts_never_raises
    [where ?s1.0 = "re_sub_strip sub_leading_label" and ?s2.0 = "re_sub_strip sub_line_label"
       and ?s3.0 = raising_statement and x = "str ''Final Answer: hi''"
       and ?x1.0 = "str ''hi''" and ?x2.0 = "str ''hi''" and e = OtherException]
  note C = strip_artifacts_never_raises
    [where ?s1.0 = "re_sub_strip sub_leading_label" and ?s2.0 = "re_sub_strip sub_line_label"
       and ?s3.0 = "re_sub_strip sub_email" and x = "str ''Final Answer: hi''"
       and ?x1.0 = "str ''hi''" and ?x2.0 = "str ''hi''" and ?x3.0 = "str ''hi''"]
  from A 1 have a: "strip_artifacts_with raising_statement (re_sub_strip sub_line_label)
     (re_sub_strip sub_email) (str ''Final Answer: hi'') = Inr (str ''Final Answer: hi'')"
    by blast
  from B 1 2 have b: "strip_artifacts_with (re_sub_strip sub_leading_label)
     (re_sub_strip sub_line_label) raising_statement (str ''Final Answer: hi'') =
     Inr (str ''hi'')"
    by blast
  from C 2 have "strip_artifacts_with (re_sub_strip sub_leading_label)
     (re_sub_strip sub_line_label) (re_sub_strip sub_email) (str ''Final Answer: hi'') =
     Inr (str ''hi'')"
    by blast
  with a b show ?thesis
    by (simp add: 3)
qed

text \<open>
  C9: the sanitized text has no whitespace at its beginning or end, and a text without
  the label and without the placeholder is returned stripped, so that
  \<open>sanitize("  hello  ") = "hello"\<close>.
\<close>

theorem strip_artifacts_stripped:
  "(\<exists>y. strip_artifacts x = Inr y \<and> stripped y) \<and>
   (\<not> contains_literal final_answer x \<and> \<not> contains_literal email_protected x \<longrightarrow>
      strip_artifacts x = Inr (strip x))"
proof (intro conjI impI)
  show "\<exists>y. strip_artifacts x = Inr y \<and> stripped y"
    by (simp add: strip_artifacts_eq stripped_strip)
next
  assume a: "\<not> contains_literal final_answer x \<and> \<not> contains_literal email_protected x"
  then have 1: "sub_leading_label x = x"
    using match_literal_contains sub_leading_label_id by blast
  from a have "\<not> contains_line_label (strip x)"
    using line_label_contains contains_literal_strip by blast
  then have 2: "sub_line_label (strip x) = strip x"
    by (rule sub_line_label_id)
  from a have "\<not> contains_literal email_protected (strip x)"
    using contains_literal_strip by blast
  then have 3: "sub_email (strip x) = strip x"
    by (rule sub_email_id)
  show "strip_artifacts x = Inr (strip x)"
    by (simp add: strip_artifacts_eq 1 2 3 strip_idem)
qed

theorem strip_artifacts_stripped_witness:
  "strip_artifacts (str ''  hello  '') = Inr (str ''hello'') \<and> stripped (str ''hello'')"
proof -
  have 1: "\<not> contains_literal final_answer (str ''  hello  '') \<and>
           \<not> contains_literal email_protected (str ''  hello  '')"
    by (simp add: pattern_defs)
  have 2: "strip (str ''  hello  '') = str ''hello''"
    by (simp add: strip_def is_space_def str_def)
  from strip_artifacts_stripped [of "str ''  hello  ''"] 1 2 show ?thesis
    by auto
qed

section \<open>Facts about the two functions\<close>

lemma handle_query_returns:
  "\<exists>output m'. handle_query e q m = (Inr output, m') \<and>
     (m' = m \<or> m' = save_context m q output)"
  by (auto simp: handle_query_def handle_query_try_def Let_def strip_artifacts_eq
      split: sum.splits option.splits prod.splits if_splits)

lemma length_hex32: "length (hex32 w) = 32"
  by (simp add: hex32_def)

lemma length_uuid_str: "length (uuid_str w) = 36"
  by (simp add: uuid_str_def Let_def length_hex32 str_def)

lemma uuid_str_not_empty: "uuid_str w \<noteq> []"
  using length_uuid_str [of w] by auto

lemma hex_digit_inj: "d < 16 \<Longrightarrow> d' < 16 \<Longrightarrow> hex_digit d = hex_digit d' \<Longrightarrow> d = d'"
  by (auto simp: hex_digit_def split: if_splits)

lemma fifteen_mask: "(15 :: 128 word) = mask 4"
  by (simp add: mask_eq_exp_minus_1)

lemma nibble_less: "unat (drop_bit k w AND (15 :: 128 word)) < 16"
proof -
  have "unat (take_bit 4 (drop_bit k w)) < 2 ^ 4"
    unfolding unsigned_take_bit_eq by (rule take_bit_nat_less_exp)
  then show ?thesis
    by (simp add: fifteen_mask take_bit_eq_mask)
qed

lemma bit_nibble: "bit (drop_bit k w AND (15 :: 128 word)) j \<longleftrightarrow> j < 4 \<and> bit w (k + j)"
  by (auto simp: fifteen_mask bit_and_iff bit_drop_bit_eq bit_mask_iff)

lemma hex32_nth:
  "i < 32 \<Longrightarrow> hex32 w ! i = hex_digit (unat (drop_bit (4 * (31 - i)) w AND 15))"
  by (simp add: hex32_def)

lemma hex32_inj:
  assumes "hex32 w = hex32 w'"
  shows "w = w'"
proof (rule bit_word_eqI)
  fix n assume n: "n < LENGTH(128)"
  define i where "i = 31 - n div 4"
  have i: "i < 32" "4 * (31 - i) + n mod 4 = n"
    using n by (simp_all add: i_def)
  from assms have "hex32 w ! i = hex32 w' ! i"
    by simp
  then have "hex_digit (unat (drop_bit (4 * (31 - i)) w AND 15)) =
             hex_digit (unat (drop_bit (4 * (31 - i)) w' AND 15))"
    using i by (simp add: hex32_nth)
  then have "unat (drop_bit (4 * (31 - i)) w AND 15) = unat (drop_bit (4 * (31 - i)) w' AND 15)"
    by (rule hex_digit_inj [OF nibble_less nibble_less])
  then have "drop_bit (4 * (31 - i)) w AND 15 = drop_bit (4 * (31 - i)) w' AND 15"
    by (simp add: word_unat_eq_iff)
  then have "bit (drop_bit (4 * (31 - i)) w AND 15) (n mod 4) =
             bit (drop_bit (4 * (31 - i)) w' AND 15) (n mod 4)"
    by simp
  then show "bit w n = bit w' n"
    using i by (simp add: bit_nibble)
qed

lemma uuid_str_inj:
  assumes "uuid_str w = uuid_str w'"
  shows "w = w'"
proof -
  have l: "length (hex32 w) = 32" "length (hex32 w') = 32"
    by (simp_all add: hex32_def)
  from assms l have "take 8 (hex32 w) = take 8 (hex32 w')"
    "take 4 (drop 8 (hex32 w)) = take 4 (drop 8 (hex32 w'))"
    "take 4 (drop 12 (hex32 w)) = take 4 (drop 12 (hex32 w'))"
    "take 4 (drop 16 (hex32 w)) = take 4 (drop 16 (hex32 w'))"
    "drop 20 (hex32 w) = drop 20 (hex32 w')"
    by (simp_all add: uuid_str_def Let_def str_def)
  then have "take 8 (hex32 w) @ take 4 (drop 8 (hex32 w)) @ take 4 (drop 12 (hex32 w)) @
      take 4 (drop 16 (hex32 w)) @ drop 20 (hex32 w) =
    take 8 (hex32 w') @ take 4 (drop 8 (hex32 w')) @ take 4 (drop 12 (hex32 w')) @
      take 4 (drop 16 (hex32 w')) @ drop 20 (hex32 w')"
    by simp
  moreover have "take 8 h @ take 4 (drop 8 h) @ take 4 (drop 12 h) @ take 4 (drop 16 h) @
      drop 20 h = h" for h :: pytext
  proof -
    have "take 4 (drop 16 h) @ drop 20 h = drop 16 h"
      using append_take_drop_id [of 4 "drop 16 h"] by simp
    moreover have "take 4 (drop 12 h) @ drop 16 h = drop 12 h"
      using append_take_drop_id [of 4 "drop 12 h"] by simp
    moreover have "take 4 (drop 8 h) @ drop 12 h = drop 8 h"
      using append_take_drop_id [of 4 "drop 8 h"] by simp
    ultimately show ?thesis
      by simp
  qed
  ultimately have "hex32 w = hex32 w'"
    by simp
  then show ?thesis
    by (rule hex32_inj)
qed


lemma bit_push_mask:
  "bit (push_bit k (mask j :: 128 word)) n \<longleftrightarrow> k \<le> n \<and> n < k + j \<and> n < 128"
  by (auto simp only: bit_push_bit_iff bit_mask_iff possible_bit_word len_of_numeral_defs)

lemma bit_variant_mask: "bit (push_bit 48 (0xc000 :: 128 word)) n \<longleftrightarrow> n = 62 \<or> n = 63"
proof -
  have "push_bit 48 (0xc000 :: 128 word) = push_bit 62 (mask 2)"
    by (simp add: push_bit_eq_mult mask_eq_exp_minus_1)
  then show ?thesis
    unfolding bit_push_mask by (simp only: bit_push_mask) arith
qed

lemma bit_variant: "bit (push_bit 48 (0x8000 :: 128 word)) n \<longleftrightarrow> n = 63"
proof -
  have "push_bit 48 (0x8000 :: 128 word) = push_bit 63 (mask 1)"
    by (simp add: push_bit_eq_mult mask_eq_exp_minus_1)
  then show ?thesis
    by (simp only: bit_push_mask) arith
qed

lemma bit_version_mask:
  "bit (push_bit 64 (0xf000 :: 128 word)) n \<longleftrightarrow> 76 \<le> n \<and> n \<le> 79"
proof -
  have "push_bit 64 (0xf000 :: 128 word) = push_bit 76 (mask 4)"
    by (simp add: push_bit_eq_mult mask_eq_exp_minus_1)
  then show ?thesis
    by (simp only: bit_push_mask) arith
qed

lemma bit_version: "bit (push_bit 76 (4 :: 128 word)) n \<longleftrightarrow> n = 78"
proof -
  have "push_bit 76 (4 :: 128 word) = push_bit 78 (mask 1)"
    by (simp add: push_bit_eq_mult mask_eq_exp_minus_1)
  then show ?thesis
    by (simp only: bit_push_mask) arith
qed

lemma bit_uuid4:
  "bit (uuid4 r) n \<longleftrightarrow>
     (if n = 63 \<or> n = 78 then True
      else if n = 62 \<or> (76 \<le> n \<and> n \<le> 79) then False
      else bit r n)"
proof -
  have "n < 128" if "bit r n"
    using bit_imp_le_length [OF that] by simp
  then show ?thesis
    unfolding uuid4_def bit_or_iff bit_and_iff bit_not_iff bit_variant_mask bit_variant
      bit_version_mask bit_version
    by (auto simp only: possible_bit_word len_of_numeral_defs split: if_splits) simp_all
qed

lemma nibble_value:
  "unat (drop_bit k w AND (15 :: 128 word)) =
     of_bool (bit w k) + 2 * of_bool (bit w (k + 1)) + 4 * of_bool (bit w (k + 2)) +
     8 * of_bool (bit w (k + 3))"
proof -
  have "unat (drop_bit k w AND (15 :: 128 word)) = take_bit 4 (unat (drop_bit k w))"
    by (simp add: fifteen_mask unsigned_take_bit_eq flip: take_bit_eq_mask)
  also have "\<dots> = horner_sum of_bool 2 (map (bit (unat (drop_bit k w))) [0..<4])"
    by (simp only: horner_sum_bit_eq_take_bit)
  also have "\<dots> = of_bool (bit w k) + 2 * of_bool (bit w (k + 1)) +
     4 * of_bool (bit w (k + 2)) + 8 * of_bool (bit w (k + 3))"
    by (simp add: upt_rec [of _ "numeral _"] bit_unsigned_iff bit_drop_bit_eq eval_nat_numeral)
  finally show ?thesis .
qed


lemma hex_digit_is_hex: "d < 16 \<Longrightarrow> is_hex_digit (hex_digit d)"
  by (auto simp: is_hex_digit_def hex_digit_def)

lemma list_all_hex32: "list_all is_hex_digit (hex32 w)"
  by (simp add: hex32_def list_all_iff hex_digit_is_hex nibble_less)

lemma hex32_version: "hex32 (uuid4 r) ! 12 = 52"
  by (simp add: hex32_nth nibble_value bit_uuid4 hex_digit_def)

lemma hex32_variant: "hex32 (uuid4 r) ! 16 \<in> {56, 57, 97, 98}"
  by (simp add: hex32_nth nibble_value bit_uuid4 hex_digit_def)

lemma uuid_str_format:
  "\<exists>g1 g2 g3 g4 g5.
     uuid_str w = g1 @ str ''-'' @ g2 @ str ''-'' @ g3 @ str ''-'' @ g4 @ str ''-'' @ g5 \<and>
     length g1 = 8 \<and> length g2 = 4 \<and> length g3 = 4 \<and> length g4 = 4 \<and> length g5 = 12 \<and>
     list_all is_hex_digit (g1 @ g2 @ g3 @ g4 @ g5) \<and>
     hd g3 = hex32 w ! 12 \<and> hd g4 = hex32 w ! 16"
proof (intro exI conjI)
  show "uuid_str w = take 8 (hex32 w) @ str ''-'' @ take 4 (drop 8 (hex32 w)) @ str ''-'' @
      take 4 (drop 12 (hex32 w)) @ str ''-'' @ take 4 (drop 16 (hex32 w)) @ str ''-'' @
      drop 20 (hex32 w)"
    by (simp add: uuid_str_def Let_def)
  have "take 8 h @ take 4 (drop 8 h) @ take 4 (drop 12 h) @ take 4 (drop 16 h) @
      drop 20 h = h" for h :: pytext
  proof -
    have "take 4 (drop 16 h) @ drop 20 h = drop 16 h"
      using append_take_drop_id [of 4 "drop 16 h"] by simp
    moreover have "take 4 (drop 12 h) @ drop 16 h = drop 12 h"
      using append_take_drop_id [of 4 "drop 12 h"] by simp
    moreover have "take 4 (drop 8 h) @ drop 12 h = drop 8 h"
      using append_take_drop_id [of 4 "drop 8 h"] by simp
    ultimately show ?thesis
      by simp
  qed
  then show "list_all is_hex_digit (take 8 (hex32 w) @ take 4 (drop 8 (hex32 w)) @
      take 4 (drop 12 (hex32 w)) @ take 4 (drop 16 (hex32 w)) @ drop 20 (hex32 w))"
    by (simp only: list_all_hex32)
  show "hd (take 4 (drop 12 (hex32 w))) = hex32 w ! 12"
    "hd (take 4 (drop 16 (hex32 w))) = hex32 w ! 16"
    by (simp_all add: hd_drop_conv_nth hex32_def)
qed (simp_all add: hex32_def)

lemma uuid4_differs:
  assumes "n \<notin> {62, 63, 76, 77, 78, 79}" and "bit r n \<noteq> bit r' n"
  shows "uuid_str (uuid4 r) \<noteq> uuid_str (uuid4 r')"
proof
  assume "uuid_str (uuid4 r) = uuid_str (uuid4 r')"
  then have "uuid4 r = uuid4 r'"
    by (rule uuid_str_inj)
  then have "bit (uuid4 r) n = bit (uuid4 r') n"
    by simp
  with assms show False
    by (simp add: bit_uuid4 split: if_splits)
qed

lemma uuid_example:
  "uuid_str (uuid4 2) = str ''00000000-0000-4000-8000-000000000002''"
  by (simp add: uuid_str_def hex32_def uuid4_def hex_digit_def str_def Let_def
      upt_rec [of _ "numeral _"] drop_bit_eq_div push_bit_eq_mult)

lemma resolve_conversation_id_not_empty: "resolve_conversation_id e given \<noteq> []"
  by (simp add: resolve_conversation_id_def uuid_str_not_empty split: option.splits)

lemma answer_question_try_returns:
  "\<exists>a ms'. answer_question_try e ms q cid = (Inr \<lparr>answer = a, conversation_id = cid\<rparr>, ms')"
proof -
  have h: "\<And>m. \<exists>output m'. handle_query e q m = (Inr output, m')"
    using handle_query_returns by blast
  show ?thesis
  proof (cases "strip q = []")
    case True
    then show ?thesis by (simp add: answer_question_try_def)
  next
    case False
    show ?thesis
    proof (cases "ms cid")
      case None
      show ?thesis
      proof (cases "memory_init_raises e")
        case (Some x)
        with None False show ?thesis by (simp add: answer_question_try_def)
      next
        case n: None
        obtain out m' where "handle_query e q new_memory = (Inr out, m')"
          using h by blast
        with None n False show ?thesis by (simp add: answer_question_try_def)
      qed
    next
      case (Some m)
      obtain out m' where "handle_query e q m = (Inr out, m')"
        using h by blast
      with Some False show ?thesis by (simp add: answer_question_try_def)
    qed
  qed
qed


lemma answer_question_unfold:
  "answer_question e ms q given =
     (case answer_question_try e ms q (resolve_conversation_id e given) of
        (Inl x, ms') \<Rightarrow>
          (Inr \<lparr>answer = msg_error, conversation_id = resolve_conversation_id e given\<rparr>, ms')
      | (Inr r, ms') \<Rightarrow> (Inr r, ms'))"
  by (simp add: answer_question_def Let_def)

lemma answer_question_blank:
  "strip q = [] \<Longrightarrow>
   answer_question e ms q given =
     (Inr \<lparr>answer = msg_no_question, conversation_id = resolve_conversation_id e given\<rparr>, ms)"
  by (simp add: answer_question_unfold answer_question_try_def)

lemma answer_question_setup:
  "strip q \<noteq> [] \<Longrightarrow> ms (resolve_conversation_id e given) = None \<Longrightarrow>
   memory_init_raises e = Some x \<Longrightarrow>
   answer_question e ms q given =
     (Inr \<lparr>answer = msg_setup, conversation_id = resolve_conversation_id e given\<rparr>, ms)"
  by (simp add: answer_question_unfold answer_question_try_def)

lemma answer_question_handled:
  assumes "strip q \<noteq> []"
    and "ms (resolve_conversation_id e given) \<noteq> None \<or> memory_init_raises e = None"
    and "handle_query e q
           (case ms (resolve_conversation_id e given) of None \<Rightarrow> new_memory | Some m \<Rightarrow> m) =
         (Inr out, m')"
  shows "answer_question e ms q given =
     (Inr \<lparr>answer = out, conversation_id = resolve_conversation_id e given\<rparr>,
      ms(resolve_conversation_id e given \<mapsto> m'))"
proof (cases "ms (resolve_conversation_id e given)")
  case None
  with assms show ?thesis
    by (simp add: answer_question_unfold answer_question_try_def)
next
  case (Some m)
  with assms show ?thesis
    by (simp add: answer_question_unfold answer_question_try_def)
qed

lemma answer_question_cases:
  obtains
    (blank) "strip q = []" and
      "answer_question e ms q given =
         (Inr \<lparr>answer = msg_no_question,
               conversation_id = resolve_conversation_id e given\<rparr>, ms)"
  | (no_memory) "strip q \<noteq> []" and "memory_init_raises e \<noteq> None" and
      "answer_question e ms q given =
         (Inr \<lparr>answer = msg_setup, conversation_id = resolve_conversation_id e given\<rparr>, ms)"
  | (handled) out m' where "strip q \<noteq> []" and
      "handle_query e q
         (case ms (resolve_conversation_id e given) of None \<Rightarrow> new_memory | Some m \<Rightarrow> m) =
       (Inr out, m')" and
      "answer_question e ms q given =
         (Inr \<lparr>answer = out, conversation_id = resolve_conversation_id e given\<rparr>,
          ms(resolve_conversation_id e given \<mapsto> m'))"
proof (cases "strip q = []")
  case True
  then show ?thesis using answer_question_blank blank by blast
next
  case False
  show ?thesis
  proof (cases "ms (resolve_conversation_id e given) = None \<and> memory_init_raises e \<noteq> None")
    case True
    with False show ?thesis using answer_question_setup [of q ms e given] no_memory by auto
  next
    case f: False
    obtain out m' where h: "handle_query e q
         (case ms (resolve_conversation_id e given) of None \<Rightarrow> new_memory | Some m \<Rightarrow> m) =
       (Inr out, m')"
      using handle_query_returns by blast
    from f have d: "ms (resolve_conversation_id e given) \<noteq> None \<or> memory_init_raises e = None"
      by auto
    from False d h have "answer_question e ms q given =
         (Inr \<lparr>answer = out, conversation_id = resolve_conversation_id e given\<rparr>,
          ms(resolve_conversation_id e given \<mapsto> m'))"
      by (rule answer_question_handled [of q ms e given out m'])
    with False h show ?thesis
      by (rule handled)
  qed
qed

lemma handle_query_answer:
  assumes "handle_query e q m = (Inr out, m')"
  shows "out \<in> set fixed_responses \<or>
         (\<exists>inp output. chain_invoke e inp = Inr output \<and> strip_artifacts output = Inr out)"
  using assms
  by (auto simp: handle_query_def handle_query_try_def Let_def fixed_responses_def
      split: sum.splits option.splits prod.splits if_splits)

lemma handle_query_window_k:
  "handle_query e q m = (r, m') \<Longrightarrow> window_k m' = window_k m"
  using handle_query_returns [of e q m] by (auto simp: save_context_def)

lemmas example_defs = example_env_def no_documents_def raising_retriever_def echo_chain_def
  raising_chain_def

lemma handle_query_retriever_none:
  "strip q \<noteq> [] \<Longrightarrow> get_retriever e = Inr None \<Longrightarrow>
   handle_query e q m = (Inr msg_information_system, m)"
  by (simp add: handle_query_def handle_query_try_def)

lemma handle_query_retriever_raises:
  "strip q \<noteq> [] \<Longrightarrow> get_retriever e = Inr (Some r) \<Longrightarrow> r q = Inl x \<Longrightarrow>
   handle_query e q m = (Inr msg_retrieve, m)"
  by (simp add: handle_query_def handle_query_try_def)

lemma msg_retrieve_differs: "msg_retrieve \<noteq> msg_information_system"
  by (simp add: msg_retrieve_def msg_information_system_def str_def)

text \<open>
  C5: a blank question gets the fixed clarification with the conversation id (the id
  given, or a generated one when none or the empty string was given); the dictionary of
  memories is returned as it was.
\<close>

theorem answer_question_blank_question:
  assumes "strip q = []"
  shows "answer_question e ms q given =
           (Inr \<lparr>answer = msg_no_question,
                 conversation_id = resolve_conversation_id e given\<rparr>, ms) \<and>
         (\<forall>c. c \<noteq> [] \<longrightarrow> resolve_conversation_id e (Some c) = c) \<and>
         resolve_conversation_id e None = uuid_str (uuid4 (urandom_conversation e))"
  using assms by (simp add: answer_question_blank resolve_conversation_id_def)

theorem answer_question_blank_question_witness:
  "strip (str ''  '') = [] \<and>
   answer_question example_env Map.empty (str ''  '') (Some (str ''c1'')) =
     (Inr \<lparr>answer = msg_no_question, conversation_id = str ''c1''\<rparr>, Map.empty)"
proof -
  have 1: "strip (str ''  '') = []"
    by (simp add: strip_def is_space_def str_def)
  have 2: "resolve_conversation_id example_env (Some (str ''c1'')) = str ''c1''"
    by (simp add: resolve_conversation_id_def str_def)
  from answer_question_blank_question [OF 1, of example_env Map.empty "Some (str ''c1'')"] 1 2
  show ?thesis
    by simp
qed


lemma answer_question_frame:
  "c \<noteq> resolve_conversation_id e given \<Longrightarrow> snd (answer_question e ms q given) c = ms c"
  by (cases rule: answer_question_cases [of q e ms given]) simp_all

lemma answer_question_absent:
  "answer_question e ms q (Some []) = answer_question e ms q None"
proof -
  have "resolve_conversation_id e (Some []) = resolve_conversation_id e None"
    by (simp add: resolve_conversation_id_def)
  then show ?thesis
    by (simp add: answer_question_def)
qed

text \<open>
  C2: for every question and every optional conversation id, whatever the collaborators
  do, \<open>answer_question\<close> returns (it raises nothing) an answer and the conversation
  id, which is not empty.  The answer is one of the fixed responses unless the chain
  returned a text, of which it is then the sanitized form; so when the chain fails on
  every input the answer is a fixed response.
\<close>

theorem answer_question_always_returns:
  "\<exists>a ms'.
     answer_question e ms q given =
       (Inr \<lparr>answer = a, conversation_id = resolve_conversation_id e given\<rparr>, ms') \<and>
     resolve_conversation_id e given \<noteq> [] \<and>
     (a \<in> set fixed_responses \<or>
      (\<exists>inp output. chain_invoke e inp = Inr output \<and> strip_artifacts output = Inr a)) \<and>
     ((\<forall>inp. \<exists>x. chain_invoke e inp = Inl x) \<longrightarrow> a \<in> set fixed_responses)"
proof (cases rule: answer_question_cases [of q e ms given])
  case blank
  then show ?thesis
    by (simp add: resolve_conversation_id_not_empty fixed_responses_def)
next
  case no_memory
  then show ?thesis
    by (simp add: resolve_conversation_id_not_empty fixed_responses_def)
next
  case (handled out m')
  from handle_query_answer [OF handled(2)]
  have 1: "out \<in> set fixed_responses \<or>
        (\<exists>inp output. chain_invoke e inp = Inr output \<and> strip_artifacts output = Inr out)" .
  then have 2: "(\<forall>inp. \<exists>x. chain_invoke e inp = Inl x) \<longrightarrow> out \<in> set fixed_responses"
    by (metis Inl_Inr_False)
  from handled(3) 1 2 show ?thesis
    by (simp add: resolve_conversation_id_not_empty)
qed

theorem answer_question_always_returns_witness:
  "(\<forall>inp. \<exists>x. raising_chain LangChainException inp = Inl x) \<and>
   fst (answer_question
     (example_env\<lparr>chain_invoke := raising_chain LangChainException,
                  memory_init_raises := Some OtherException\<rparr>)
     Map.empty (str ''Hello'') None) =
     Inr \<lparr>answer = msg_setup, conversation_id = uuid_str (uuid4 2)\<rparr> \<and>
   msg_setup \<in> set fixed_responses"
proof -
  have 1: "strip (str ''Hello'') \<noteq> []"
    by (simp add: strip_def is_space_def str_def)
  have 2: "resolve_conversation_id
     (example_env\<lparr>chain_invoke := raising_chain LangChainException,
                  memory_init_raises := Some OtherException\<rparr>) None = uuid_str (uuid4 2)"
    by (simp add: resolve_conversation_id_def example_env_def)
  have 3: "memory_init_raises (example_env\<lparr>chain_invoke := raising_chain LangChainException,
                  memory_init_raises := Some OtherException\<rparr>) = Some OtherException"
    by simp
  have 4: "answer_question
     (example_env\<lparr>chain_invoke := raising_chain LangChainException,
                  memory_init_raises := Some OtherException\<rparr>)
     Map.empty (str ''Hello'') None =
     (Inr \<lparr>answer = msg_setup, conversation_id = uuid_str (uuid4 2)\<rparr>, Map.empty)"
    using answer_question_setup [OF 1 _ 3, of Map.empty None] by (simp add: 2)
  from answer_question_always_returns
    [of "example_env\<lparr>chain_invoke := raising_chain LangChainException,
                  memory_init_raises := Some OtherException\<rparr>" Map.empty "str ''Hello''" None]
    4 show ?thesis
    by (auto simp: raising_chain_def)
qed

text \<open>
  C10: the empty string as conversation id is treated as no id: the call is the call
  without an id and nothing is stored under the empty string; once the memory has been
  created the session is found under the generated id.  The id returned is the string
  of a version 4 UUID made from the random bytes drawn for it: 36 characters, never
  empty, five groups of 8, 4, 4, 4 and 12 lowercase hexadecimal digits with hyphens
  between them, the third group beginning with \<open>4\<close> and the fourth with \<open>8\<close>,
  \<open>9\<close>, \<open>a\<close> or \<open>b\<close>; and two draws that differ in any bit other than the six
  that \<open>uuid4\<close> fixes give different ids.
\<close>

theorem answer_question_empty_conversation_id:
  "answer_question e ms q (Some []) = answer_question e ms q None \<and>
   (\<exists>a ms'.
      answer_question e ms q (Some []) =
        (Inr \<lparr>answer = a, conversation_id = uuid_str (uuid4 (urandom_conversation e))\<rparr>, ms') \<and>
      length (uuid_str (uuid4 (urandom_conversation e))) = 36 \<and>
      uuid_str (uuid4 (urandom_conversation e)) \<noteq> [] \<and>
      ms' [] = ms [] \<and>
      (strip q \<noteq> [] \<and> memory_init_raises e = None \<longrightarrow>
         ms' (uuid_str (uuid4 (urandom_conversation e))) \<noteq> None)) \<and>
   (\<exists>g1 g2 g3 g4 g5.
      uuid_str (uuid4 (urandom_conversation e)) =
        g1 @ str ''-'' @ g2 @ str ''-'' @ g3 @ str ''-'' @ g4 @ str ''-'' @ g5 \<and>
      length g1 = 8 \<and> length g2 = 4 \<and> length g3 = 4 \<and> length g4 = 4 \<and> length g5 = 12 \<and>
      list_all is_hex_digit (g1 @ g2 @ g3 @ g4 @ g5) \<and>
      hd g3 = 52 \<and> hd g4 \<in> {56, 57, 97, 98}) \<and>
   (n \<notin> {62, 63, 76, 77, 78, 79} \<and> bit (urandom_conversation e) n \<noteq> bit r n \<longrightarrow>
      uuid_str (uuid4 (urandom_conversation e)) \<noteq> uuid_str (uuid4 r))"
proof (intro conjI)
  have r: "resolve_conversation_id e (Some []) = uuid_str (uuid4 (urandom_conversation e))"
    by (simp add: resolve_conversation_id_def)
  have n: "[] \<noteq> resolve_conversation_id e (Some [])"
    using resolve_conversation_id_not_empty [of e "Some []"] by simp
  have f: "snd (answer_question e ms q (Some [])) [] = ms []"
    using n by (rule answer_question_frame)
  have "\<exists>a ms'.
      answer_question e ms q (Some []) =
        (Inr \<lparr>answer = a, conversation_id = uuid_str (uuid4 (urandom_conversation e))\<rparr>, ms') \<and>
      ms' [] = ms [] \<and>
      (strip q \<noteq> [] \<and> memory_init_raises e = None \<longrightarrow>
         ms' (uuid_str (uuid4 (urandom_conversation e))) \<noteq> None)"
  proof (cases rule: answer_question_cases [of q e ms "Some []"])
    case blank
    then show ?thesis by (simp add: r)
  next
    case no_memory
    then show ?thesis by (auto simp: r)
  next
    case (handled out m')
    with f show ?thesis by (simp add: r)
  qed
  then show "\<exists>a ms'.
      answer_question e ms q (Some []) =
        (Inr \<lparr>answer = a, conversation_id = uuid_str (uuid4 (urandom_conversation e))\<rparr>, ms') \<and>
      length (uuid_str (uuid4 (urandom_conversation e))) = 36 \<and>
      uuid_str (uuid4 (urandom_conversation e)) \<noteq> [] \<and>
      ms' [] = ms [] \<and>
      (strip q \<noteq> [] \<and> memory_init_raises e = None \<longrightarrow>
         ms' (uuid_str (uuid4 (urandom_conversation e))) \<noteq> None)"
    using length_uuid_str uuid_str_not_empty by blast
  show "answer_question e ms q (Some []) = answer_question e ms q None"
    by (rule answer_question_absent)
  show "\<exists>g1 g2 g3 g4 g5.
      uuid_str (uuid4 (urandom_conversation e)) =
        g1 @ str ''-'' @ g2 @ str ''-'' @ g3 @ str ''-'' @ g4 @ str ''-'' @ g5 \<and>
      length g1 = 8 \<and> length g2 = 4 \<and> length g3 = 4 \<and> length g4 = 4 \<and> length g5 = 12 \<and>
      list_all is_hex_digit (g1 @ g2 @ g3 @ g4 @ g5) \<and>
      hd g3 = 52 \<and> hd g4 \<in> {56, 57, 97, 98}"
    using uuid_str_format [of "uuid4 (urandom_conversation e)"]
      hex32_version [of "urandom_conversation e"] hex32_variant [of "urandom_conversation e"]
    by metis
  show "n \<notin> {62, 63, 76, 77, 78, 79} \<and> bit (urandom_conversation e) n \<noteq> bit r n \<longrightarrow>
      uuid_str (uuid4 (urandom_conversation e)) \<noteq> uuid_str (uuid4 r)"
    using uuid4_differs by blast
qed

theorem answer_question_empty_conversation_id_witness:
  "strip (str ''Hello'') \<noteq> [] \<and> memory_init_raises example_env = None \<and>
   fst (answer_question example_env Map.empty (str ''Hello'') (Some [])) =
     Inr \<lparr>answer = str ''You asked: Hello'',
          conversation_id = str ''00000000-0000-4000-8000-000000000002''\<rparr> \<and>
   snd (answer_question example_env Map.empty (str ''Hello'') (Some [])) [] = None \<and>
   snd (answer_question example_env Map.empty (str ''Hello'') (Some []))
     (str ''00000000-0000-4000-8000-000000000002'') \<noteq> None \<and>
   (0::nat) \<notin> {62, 63, 76, 77, 78, 79} \<and> bit (2 :: 128 word) 0 \<noteq> bit (3 :: 128 word) 0 \<and>
   str ''00000000-0000-4000-8000-000000000002'' \<noteq> uuid_str (uuid4 3)"
proof -
  have 1: "strip (str ''Hello'') \<noteq> []" "memory_init_raises example_env = None"
    "urandom_conversation example_env = 2"
    by (simp_all add: strip_def is_space_def str_def example_env_def)
  have 2: "uuid_str (uuid4 2) = str ''00000000-0000-4000-8000-000000000002''"
    by (rule uuid_example)
  have 3: "(0::nat) \<notin> {62, 63, 76, 77, 78, 79}" "bit (2 :: 128 word) 0 \<noteq> bit (3 :: 128 word) 0"
    by simp_all
  have 4: "handle_query example_env (str ''Hello'') new_memory =
     (Inr (str ''You asked: Hello''),
      save_context new_memory (str ''Hello'') (str ''You asked: Hello''))"
    by (simp add: handle_query_def handle_query_try_def example_defs get_llm_def Let_def
        strip_artifacts_eq sub_leading_label_def strip_def is_space_def pattern_defs)
  note A = answer_question_empty_conversation_id
    [of example_env Map.empty "str ''Hello''" 0 3, unfolded 1(3) 2]
  from A obtain a ms' where
    a: "answer_question example_env Map.empty (str ''Hello'') (Some []) =
        (Inr \<lparr>answer = a, conversation_id = str ''00000000-0000-4000-8000-000000000002''\<rparr>,
         ms')"
    and b: "ms' [] = Map.empty []"
    and c: "strip (str ''Hello'') \<noteq> [] \<and> memory_init_raises example_env = None \<longrightarrow>
         ms' (str ''00000000-0000-4000-8000-000000000002'') \<noteq> None"
    by blast
  from A 3 have d: "str ''00000000-0000-4000-8000-000000000002'' \<noteq> uuid_str (uuid4 3)"
    by blast
  have "resolve_conversation_id example_env (Some []) = uuid_str (uuid4 2)"
    by (simp add: resolve_conversation_id_def example_env_def)
  with answer_question_handled [of "str ''Hello''" Map.empty example_env "Some []"
        "str ''You asked: Hello''"
        "save_context new_memory (str ''Hello'') (str ''You asked: Hello'')"] 1 4
  have "fst (answer_question example_env Map.empty (str ''Hello'') (Some [])) =
     Inr \<lparr>answer = str ''You asked: Hello'',
          conversation_id = str ''00000000-0000-4000-8000-000000000002''\<rparr>"
    by (simp add: 2)
  with a b c d 1 3 show ?thesis
    by simp
qed

text \<open>
  C3, as the specification states it: a missing retriever and a retrieval call that raises
  give the same "information system" response, and the memory store is not changed.
  This fails twice on the call below, where \<open>retriever.invoke\<close> raises: the answer is
  the "couldn't retrieve" response, another text, and the dictionary, empty before, has
  a session for \<open>c1\<close> afterwards.
\<close>

theorem retriever_raises_other_response:
  "fst (answer_question (example_env\<lparr>get_retriever := Inr (Some raising_retriever)\<rparr>)
          Map.empty (str ''Hello'') (Some (str ''c1''))) =
     Inr \<lparr>answer = msg_retrieve, conversation_id = str ''c1''\<rparr> \<and>
   msg_retrieve \<noteq> msg_information_system \<and>
   snd (answer_question (example_env\<lparr>get_retriever := Inr (Some raising_retriever)\<rparr>)
          Map.empty (str ''Hello'') (Some (str ''c1''))) (str ''c1'') = Some new_memory"
proof -
  have 1: "strip (str ''Hello'') \<noteq> []"
    by (simp add: strip_def is_space_def str_def)
  have 2: "resolve_conversation_id (example_env\<lparr>get_retriever := Inr (Some raising_retriever)\<rparr>)
             (Some (str ''c1'')) = str ''c1''"
    by (simp add: resolve_conversation_id_def str_def)
  have 3: "handle_query (example_env\<lparr>get_retriever := Inr (Some raising_retriever)\<rparr>)
             (str ''Hello'') new_memory = (Inr msg_retrieve, new_memory)"
    using 1 by (simp add: handle_query_retriever_raises [of _ _ raising_retriever OtherException]
        raising_retriever_def)
  have 4: "memory_init_raises (example_env\<lparr>get_retriever := Inr (Some raising_retriever)\<rparr>) =
             None"
    by (simp add: example_env_def)
  have "answer_question (example_env\<lparr>get_retriever := Inr (Some raising_retriever)\<rparr>)
          Map.empty (str ''Hello'') (Some (str ''c1'')) =
        (Inr \<lparr>answer = msg_retrieve, conversation_id = str ''c1''\<rparr>,
         [str ''c1'' \<mapsto> new_memory])"
    using answer_question_handled [OF 1, of Map.empty
        "example_env\<lparr>get_retriever := Inr (Some raising_retriever)\<rparr>" "Some (str ''c1'')"
        msg_retrieve new_memory] 3 4
    by (simp add: 2)
  then show ?thesis
    by (simp add: msg_retrieve_differs)
qed

text \<open>
  C3, amended: when the retriever is \<open>None\<close> the Query Handler returns the fixed
  "information system" response; when the retrieval call raises it returns the fixed
  "couldn't retrieve the necessary information" response; in both cases it leaves the
  memory it was given unchanged.  \<open>answer_question\<close>, for a question that is not blank
  and unless the memory could not be created, returns that response with the
  conversation id; no exchange is stored, but a new, empty session is stored for a
  conversation id that had none.
\<close>

theorem retriever_failure_responses:
  assumes "strip q \<noteq> []"
    and "get_retriever e = Inr None \<or> (\<exists>r x. get_retriever e = Inr (Some r) \<and> r q = Inl x)"
  shows "handle_query e q m =
           (Inr (if get_retriever e = Inr None then msg_information_system else msg_retrieve), m) \<and>
         (ms (resolve_conversation_id e given) \<noteq> None \<or> memory_init_raises e = None \<longrightarrow>
            answer_question e ms q given =
              (Inr \<lparr>answer = (if get_retriever e = Inr None then msg_information_system
                               else msg_retrieve),
                    conversation_id = resolve_conversation_id e given\<rparr>,
               (case ms (resolve_conversation_id e given) of
                  None \<Rightarrow> ms(resolve_conversation_id e given \<mapsto> new_memory)
                | Some m0 \<Rightarrow> ms)))"
proof -
  have h: "handle_query e q m' =
           (Inr (if get_retriever e = Inr None then msg_information_system else msg_retrieve), m')"
    for m'
    using assms handle_query_retriever_none [of q e m'] handle_query_retriever_raises [of q e _ _ m']
    by auto
  show ?thesis
  proof (intro conjI impI)
    show "handle_query e q m =
           (Inr (if get_retriever e = Inr None then msg_information_system else msg_retrieve), m)"
      by (rule h)
  next
    assume a: "ms (resolve_conversation_id e given) \<noteq> None \<or> memory_init_raises e = None"
    from answer_question_handled [of q ms e given _ _, OF assms(1) a h]
    show "answer_question e ms q given =
              (Inr \<lparr>answer = (if get_retriever e = Inr None then msg_information_system
                               else msg_retrieve),
                    conversation_id = resolve_conversation_id e given\<rparr>,
               (case ms (resolve_conversation_id e given) of
                  None \<Rightarrow> ms(resolve_conversation_id e given \<mapsto> new_memory)
                | Some m0 \<Rightarrow> ms))"
      by (auto split: option.splits)
  qed
qed

theorem retriever_failure_responses_witness:
  "strip (str ''Hello'') \<noteq> [] \<and>
   get_retriever (example_env\<lparr>get_retriever := Inr None\<rparr>) = Inr None \<and>
   memory_init_raises (example_env\<lparr>get_retriever := Inr None\<rparr>) = None \<and>
   handle_query (example_env\<lparr>get_retriever := Inr None\<rparr>) (str ''Hello'') new_memory =
     (Inr msg_information_system, new_memory) \<and>
   answer_question (example_env\<lparr>get_retriever := Inr None\<rparr>) Map.empty (str ''Hello'')
       (Some (str ''c1'')) =
     (Inr \<lparr>answer = msg_information_system, conversation_id = str ''c1''\<rparr>,
      [str ''c1'' \<mapsto> new_memory])"
proof -
  have 1: "strip (str ''Hello'') \<noteq> []"
    by (simp add: strip_def is_space_def str_def)
  have 2: "get_retriever (example_env\<lparr>get_retriever := Inr None\<rparr>) = Inr None \<or>
           (\<exists>r x. get_retriever (example_env\<lparr>get_retriever := Inr None\<rparr>) = Inr (Some r) \<and>
                  r (str ''Hello'') = Inl x)"
    by simp
  have 3: "resolve_conversation_id (example_env\<lparr>get_retriever := Inr None\<rparr>)
             (Some (str ''c1'')) = str ''c1''"
    by (simp add: resolve_conversation_id_def str_def)
  have 4: "memory_init_raises (example_env\<lparr>get_retriever := Inr None\<rparr>) = None"
    by (simp add: example_env_def)
  from retriever_failure_responses [OF 1 2, of new_memory Map.empty "Some (str ''c1'')"] 1 4
  show ?thesis
    by (simp add: 3)
qed

text \<open>
  C4: when the chain fails, in building the client or in its invocation, the Query
  Handler returns a fixed apology, the "try again or contact support" one for a
  \<open>LangChainException\<close> and the "unexpected error" one for any other exception; it
  returns the memory unchanged and raises nothing.
\<close>

theorem generation_failure_responses:
  assumes "strip q \<noteq> []"
    and "get_retriever e = Inr (Some r)" and "r q = Inr docs"
    and "get_llm e = Inl x \<or>
         (get_llm e = Inr () \<and>
          chain_invoke e
            \<lparr>in_domain_instructions = DOMAIN_INSTRUCTIONS e,
             in_context =
               (if docs = [] then [] else join [newline, newline] (filter (\<lambda>d. d \<noteq> []) docs)),
             in_chat_history = format_chat_history e m,
             in_question = q\<rparr> = Inl x)"
  shows "handle_query e q m =
           (Inr (if x = LangChainException then msg_processing else msg_unexpected), m)"
  using assms by (auto simp: handle_query_def handle_query_try_def Let_def)

theorem generation_failure_responses_witness:
  "handle_query (example_env\<lparr>chain_invoke := raising_chain LangChainException\<rparr>)
     (str ''Hello'') new_memory = (Inr msg_processing, new_memory) \<and>
   handle_query (example_env\<lparr>OPENAI_API_KEY := None\<rparr>)
     (str ''Hello'') new_memory = (Inr msg_unexpected, new_memory)"
proof -
  have 1: "strip (str ''Hello'') \<noteq> []"
    by (simp add: strip_def is_space_def str_def)
  have 2: "get_retriever (example_env\<lparr>chain_invoke := raising_chain LangChainException\<rparr>) =
             Inr (Some no_documents)"
    "get_retriever (example_env\<lparr>OPENAI_API_KEY := None\<rparr>) = Inr (Some no_documents)"
    "no_documents (str ''Hello'') = Inr []"
    by (simp_all add: example_env_def no_documents_def)
  have 3: "get_llm (example_env\<lparr>OPENAI_API_KEY := None\<rparr>) = Inl ValueError"
    "get_llm (example_env\<lparr>chain_invoke := raising_chain LangChainException\<rparr>) = Inr ()"
    by (simp_all add: get_llm_def example_env_def str_def)
  have 4: "chain_invoke (example_env\<lparr>chain_invoke := raising_chain LangChainException\<rparr>) inp =
             Inl LangChainException" for inp
    by (simp add: raising_chain_def)
  from generation_failure_responses [OF 1 2(1) 2(3), of LangChainException new_memory]
    generation_failure_responses [OF 1 2(2) 2(3), of ValueError new_memory] 3 4
  show ?thesis
    by simp
qed

section \<open>The window of a session\<close>

lemma handle_query_success:
  assumes "all_stages_succeed e q"
  shows "\<exists>a. handle_query e q m = (Inr a, save_context m q a)"
proof -
  from assms obtain r docs where r: "get_retriever e = Inr (Some r)" "r q = Inr docs"
    by (auto simp: all_stages_succeed_def)
  from assms have q: "strip q \<noteq> []" and l: "get_llm e = Inr ()"
    and s: "save_context_raises e = None"
    by (simp_all add: all_stages_succeed_def)
  from assms obtain out where
    "chain_invoke e
       \<lparr>in_domain_instructions = DOMAIN_INSTRUCTIONS e,
        in_context =
          (if docs = [] then [] else join [newline, newline] (filter (\<lambda>d. d \<noteq> []) docs)),
        in_chat_history = format_chat_history e m,
        in_question = q\<rparr> = Inr out"
    unfolding all_stages_succeed_def by blast
  with r q l s show ?thesis
    by (simp add: handle_query_def handle_query_try_def Let_def strip_artifacts_eq)
qed

lemma resolve_conversation_id_given:
  "c \<noteq> [] \<Longrightarrow> resolve_conversation_id e (Some c) = c"
  by (simp add: resolve_conversation_id_def)

lemma answer_question_success:
  assumes "all_stages_succeed e q" and "c \<noteq> []"
  shows "\<exists>a. answer_question e ms q (Some c) =
           (Inr \<lparr>answer = a, conversation_id = c\<rparr>,
            ms(c \<mapsto> save_context (case ms c of None \<Rightarrow> new_memory | Some m \<Rightarrow> m) q a))"
proof -
  obtain a where h: "handle_query e q (case ms c of None \<Rightarrow> new_memory | Some m \<Rightarrow> m) =
      (Inr a, save_context (case ms c of None \<Rightarrow> new_memory | Some m \<Rightarrow> m) q a)"
    using handle_query_success [OF assms(1)] by blast
  from assms(1) have q: "strip q \<noteq> []" and i: "memory_init_raises e = None"
    by (simp_all add: all_stages_succeed_def)
  have r: "resolve_conversation_id e (Some c) = c"
    using assms(2) by (rule resolve_conversation_id_given)
  from i have d: "ms (resolve_conversation_id e (Some c)) \<noteq> None \<or> memory_init_raises e = None"
    by simp
  from answer_question_handled [of q ms e "Some c" _ _, OF q d] h
  show ?thesis
    by (simp add: r)
qed

lemma exchanges_of_messages:
  "exchanges_of (concat (map (\<lambda>(q, a). [HumanMessage q, AIMessage a]) log)) = log"
  by (induction log) auto

lemma drop_messages:
  "drop (j * 2) (concat (map (\<lambda>(q, a). [HumanMessage q, AIMessage a]) log)) =
   concat (map (\<lambda>(q, a). [HumanMessage q, AIMessage a]) (drop j log))"
proof (induction log arbitrary: j)
  case Nil
  then show ?case by simp
next
  case (Cons x log)
  then show ?case by (cases j) (auto split: prod.splits)
qed

lemma length_messages:
  "length (concat (map (\<lambda>(q, a). [HumanMessage q, AIMessage a]) log)) = length log * 2"
  by (induction log) auto

lemma session_exchanges_window:
  assumes "window_k m = 5"
    and "chat_messages m = concat (map (\<lambda>(q, a). [HumanMessage q, AIMessage a]) log)"
  shows "session_exchanges m = drop (length log - 5) log"
proof -
  have "length (chat_messages m) - window_k m * 2 = (length log - 5) * 2"
    by (simp add: assms length_messages diff_mult_distrib)
  then have "buffer_messages m =
      concat (map (\<lambda>(q, a). [HumanMessage q, AIMessage a]) (drop (length log - 5) log))"
    using assms by (simp add: buffer_messages_def drop_messages)
  then show ?thesis
    by (simp add: session_exchanges_def exchanges_of_messages)
qed

lemma length_exchanges_of: "length (exchanges_of xs) * 2 \<le> length xs"
  by (induction xs rule: exchanges_of.induct) simp_all

lemma length_session_exchanges: "length (session_exchanges m) \<le> window_k m"
proof -
  have "length (buffer_messages m) \<le> window_k m * 2"
    unfolding buffer_messages_def by (simp; arith)
  with length_exchanges_of [of "buffer_messages m"] show ?thesis
    by (simp add: session_exchanges_def)
qed

lemma exchange_messages_append:
  "exchange_messages (xs @ [(q, a)]) = exchange_messages xs @ [HumanMessage q, AIMessage a]"
  by (simp add: exchange_messages_def)

lemma exchanges_of_exchange_messages: "exchanges_of (exchange_messages xs) = xs"
  unfolding exchange_messages_def by (rule exchanges_of_messages)

text \<open>A memory as \<open>answer_question\<close> makes and keeps it: window 5, messages in pairs.\<close>

lemma new_memory_paired:
  "window_k new_memory = 5 \<and>
   chat_messages new_memory = exchange_messages (stored_exchanges new_memory)"
  by (simp add: new_memory_def stored_exchanges_def exchange_messages_def)

lemma save_context_paired:
  assumes "window_k m = 5 \<and> chat_messages m = exchange_messages (stored_exchanges m)"
  shows "window_k (save_context m q a) = 5 \<and>
         stored_exchanges (save_context m q a) = stored_exchanges m @ [(q, a)] \<and>
         chat_messages (save_context m q a) =
           exchange_messages (stored_exchanges (save_context m q a))"
proof -
  have "chat_messages (save_context m q a) = exchange_messages (stored_exchanges m @ [(q, a)])"
    using assms by (simp add: save_context_def exchange_messages_append)
  then have "stored_exchanges (save_context m q a) = stored_exchanges m @ [(q, a)]"
    by (simp add: stored_exchanges_def [of "save_context m q a"] exchanges_of_exchange_messages)
  with assms show ?thesis
    by (simp add: save_context_def exchange_messages_append)
qed

lemma session_upd: "session (ms(c \<mapsto> m)) c' = (if c' = c then m else session ms c')"
  by (simp add: session_def)

lemma answer_question_step:
  obtains
    (same) "snd (answer_question e ms q given) = ms"
  | (kept) "snd (answer_question e ms q given) =
              ms(resolve_conversation_id e given \<mapsto> session ms (resolve_conversation_id e given))"
  | (saved) a where
      "answer_question e ms q given =
         (Inr \<lparr>answer = a, conversation_id = resolve_conversation_id e given\<rparr>,
          ms(resolve_conversation_id e given \<mapsto>
               save_context (session ms (resolve_conversation_id e given)) q a))"
proof (cases rule: answer_question_cases [of q e ms given])
  case blank
  then show ?thesis using same by simp
next
  case no_memory
  then show ?thesis using same by simp
next
  case (handled out m')
  from handle_query_returns [of e q "session ms (resolve_conversation_id e given)"] handled(2)
  have "m' = session ms (resolve_conversation_id e given) \<or>
        m' = save_context (session ms (resolve_conversation_id e given)) q out"
    by (simp add: session_def)
  then show ?thesis
  proof
    assume "m' = session ms (resolve_conversation_id e given)"
    with handled(3) show ?thesis using kept by simp
  next
    assume "m' = save_context (session ms (resolve_conversation_id e given)) q out"
    with handled(3) show ?thesis using saved by simp
  qed
qed

lemma length_save_context:
  "length (chat_messages m) < length (chat_messages (save_context m q a))"
  by (simp add: save_context_def)

lemma transcript_step:
  assumes "\<forall>c. window_k (session ms c) = 5 \<and>
               chat_messages (session ms c) = exchange_messages (stored_exchanges (session ms c))"
  shows "(\<forall>c. window_k (session (snd (answer_question e ms q given)) c) = 5 \<and>
              chat_messages (session (snd (answer_question e ms q given)) c) =
                exchange_messages
                  (stored_exchanges (session (snd (answer_question e ms q given)) c))) \<and>
         stored_exchanges (session (snd (answer_question e ms q given)) cid) =
           stored_exchanges (session ms cid) @ transcript ms cid [(e, q, given)]"
proof (cases rule: answer_question_step [of e ms q given])
  case same
  with assms show ?thesis
    by (simp add: prod.case_eq_if)
next
  case kept
  have "session (snd (answer_question e ms q given)) c = session ms c" for c
    by (simp add: kept session_upd)
  with assms show ?thesis
    by (simp add: prod.case_eq_if)
next
  case (saved a)
  define c0 where "c0 = resolve_conversation_id e given"
  have s: "session (snd (answer_question e ms q given)) c =
           (if c = c0 then save_context (session ms c0) q a else session ms c)" for c
    by (simp add: saved session_upd c0_def)
  have p: "window_k (save_context (session ms c0) q a) = 5 \<and>
         stored_exchanges (save_context (session ms c0) q a) =
           stored_exchanges (session ms c0) @ [(q, a)] \<and>
         chat_messages (save_context (session ms c0) q a) =
           exchange_messages (stored_exchanges (save_context (session ms c0) q a))"
    using assms by (intro save_context_paired) simp
  have 1: "\<forall>c. window_k (session (snd (answer_question e ms q given)) c) = 5 \<and>
              chat_messages (session (snd (answer_question e ms q given)) c) =
                exchange_messages
                  (stored_exchanges (session (snd (answer_question e ms q given)) c))"
    using assms p by (simp add: s)
  have 2: "stored_exchanges (session (snd (answer_question e ms q given)) cid) =
           stored_exchanges (session ms cid) @ transcript ms cid [(e, q, given)]"
  proof (cases "c0 = cid")
    case True
    have "transcript ms cid [(e, q, given)] = [(q, a)]"
      using True length_save_context [of "session ms c0" q a]
      by (simp add: saved session_upd answer_of_def flip: c0_def)
    with True p show ?thesis
      by (simp add: s)
  next
    case False
    then have "transcript ms cid [(e, q, given)] = []"
      by (simp add: prod.case_eq_if flip: c0_def)
    with False show ?thesis
      by (simp add: s)
  qed
  from 1 2 show ?thesis ..
qed

lemma transcript_Cons:
  "transcript ms cid (call # calls) =
   transcript ms cid [call] @
   transcript (snd (answer_question (fst call) ms (fst (snd call)) (snd (snd call)))) cid calls"
  by (cases call) (simp add: prod.case_eq_if)

lemma run_Cons:
  "run ms (call # calls) =
   run (snd (answer_question (fst call) ms (fst (snd call)) (snd (snd call)))) calls"
  by (cases call) simp

lemma run_transcript:
  "\<forall>c. window_k (session ms c) = 5 \<and>
       chat_messages (session ms c) = exchange_messages (stored_exchanges (session ms c)) \<Longrightarrow>
   (\<forall>c. window_k (session (run ms calls) c) = 5 \<and>
        chat_messages (session (run ms calls) c) =
          exchange_messages (stored_exchanges (session (run ms calls) c))) \<and>
   stored_exchanges (session (run ms calls) cid) =
     stored_exchanges (session ms cid) @ transcript ms cid calls"
proof (induction calls arbitrary: ms)
  case Nil
  then show ?case by simp
next
  case (Cons call calls)
  define ms1 where
    "ms1 = snd (answer_question (fst call) ms (fst (snd call)) (snd (snd call)))"
  from transcript_step [OF Cons.prems, of "fst call" "fst (snd call)" "snd (snd call)" cid]
  have 1: "\<forall>c. window_k (session ms1 c) = 5 \<and>
              chat_messages (session ms1 c) = exchange_messages (stored_exchanges (session ms1 c))"
    and 2: "stored_exchanges (session ms1 cid) =
            stored_exchanges (session ms cid) @ transcript ms cid [call]"
    by (simp_all add: ms1_def)
  from Cons.IH [OF 1] 2 show ?case
    by (simp add: run_Cons [of ms call calls] transcript_Cons [of ms cid call calls]
        flip: ms1_def)
qed


lemma example_env_succeeds: "strip q \<noteq> [] \<Longrightarrow> all_stages_succeed example_env q"
  by (simp add: all_stages_succeed_def example_env_def no_documents_def echo_chain_def
      get_llm_def str_def)

lemma example_env_answer:
  assumes "strip q \<noteq> []" and "c \<noteq> []"
    and "strip_artifacts (str ''Final Answer: You asked: '' @ q) = Inr a"
  shows "answer_question example_env ms q (Some c) =
           (Inr \<lparr>answer = a, conversation_id = c\<rparr>, ms(c \<mapsto> save_context (session ms c) q a))"
proof -
  have r: "resolve_conversation_id example_env (Some c) = c"
    using assms(2) by (rule resolve_conversation_id_given)
  have h: "handle_query example_env q m = (Inr a, save_context m q a)" for m
    using assms
    by (simp add: handle_query_def handle_query_try_def Let_def example_env_def
        no_documents_def echo_chain_def get_llm_def str_def)
  have d: "ms (resolve_conversation_id example_env (Some c)) \<noteq> None \<or>
           memory_init_raises example_env = None"
    by (simp add: example_env_def)
  from answer_question_handled [of q ms example_env "Some c" _ _, OF assms(1) d h]
  show ?thesis
    by (simp add: r session_def)
qed

lemma example_env_lost:
  assumes "strip q \<noteq> []" and "c \<noteq> []"
  shows "answer_question (example_env\<lparr>get_retriever := Inr None\<rparr>) ms q (Some c) =
           (Inr \<lparr>answer = msg_information_system, conversation_id = c\<rparr>,
            ms(c \<mapsto> session ms c))"
proof -
  have r: "resolve_conversation_id (example_env\<lparr>get_retriever := Inr None\<rparr>) (Some c) = c"
    using assms(2) by (rule resolve_conversation_id_given)
  have h: "handle_query (example_env\<lparr>get_retriever := Inr None\<rparr>) q m =
           (Inr msg_information_system, m)" for m
    using assms(1) by (simp add: handle_query_retriever_none)
  have d: "ms (resolve_conversation_id (example_env\<lparr>get_retriever := Inr None\<rparr>) (Some c)) \<noteq> None \<or>
           memory_init_raises (example_env\<lparr>get_retriever := Inr None\<rparr>) = None"
    by (simp add: example_env_def)
  from answer_question_handled
    [of q ms "example_env\<lparr>get_retriever := Inr None\<rparr>" "Some c" _ _, OF assms(1) d h]
  show ?thesis
    by (simp add: r session_def)
qed

lemma example_texts:
  "strip (str ''q1'') \<noteq> []" "strip (str ''q2'') \<noteq> []" "strip (str ''q3'') \<noteq> []" "strip (str ''q4'') \<noteq> []" "strip (str ''q5'') \<noteq> []" "strip (str ''q6'') \<noteq> []" "strip (str ''other'') \<noteq> []" "strip (str ''lost'') \<noteq> []"
  by (simp_all add: strip_def is_space_def str_def)

lemma example_ids: "str ''c1'' \<noteq> []" "str ''c2'' \<noteq> []" "str ''c1'' \<noteq> str ''c2''"
  "str ''c2'' \<noteq> str ''c1''"
  by (simp_all add: str_def)

lemma example_answers:
  "strip_artifacts (str ''Final Answer: You asked: '' @ str ''q1'') = Inr (str ''You asked: q1'')"
  "strip_artifacts (str ''Final Answer: You asked: '' @ str ''q2'') = Inr (str ''You asked: q2'')"
  "strip_artifacts (str ''Final Answer: You asked: '' @ str ''q3'') = Inr (str ''You asked: q3'')"
  "strip_artifacts (str ''Final Answer: You asked: '' @ str ''q4'') = Inr (str ''You asked: q4'')"
  "strip_artifacts (str ''Final Answer: You asked: '' @ str ''q5'') = Inr (str ''You asked: q5'')"
  "strip_artifacts (str ''Final Answer: You asked: '' @ str ''q6'') = Inr (str ''You asked: q6'')"
  "strip_artifacts (str ''Final Answer: You asked: '' @ str ''other'') = Inr (str ''You asked: other'')"
  by (simp_all add: strip_artifacts_eq sub_leading_label_def strip_def is_space_def pattern_defs)

lemmas example_steps =
      example_env_answer [OF example_texts(1) example_ids(1) example_answers(1)]
      example_env_answer [OF example_texts(2) example_ids(1) example_answers(2)]
      example_env_answer [OF example_texts(3) example_ids(1) example_answers(3)]
      example_env_answer [OF example_texts(4) example_ids(1) example_answers(4)]
      example_env_answer [OF example_texts(5) example_ids(1) example_answers(5)]
      example_env_answer [OF example_texts(6) example_ids(1) example_answers(6)]
      example_env_answer [OF example_texts(7) example_ids(2) example_answers(7)]
      example_env_lost [OF example_texts(8) example_ids(1)]

lemma example_run:
  "run Map.empty example_calls (str ''c1'') =
     Some \<lparr>window_k = 5, chat_messages =
     [HumanMessage (str ''q1''), AIMessage (str ''You asked: q1''),
      HumanMessage (str ''q2''), AIMessage (str ''You asked: q2''),
      HumanMessage (str ''q3''), AIMessage (str ''You asked: q3''),
      HumanMessage (str ''q4''), AIMessage (str ''You asked: q4''),
      HumanMessage (str ''q5''), AIMessage (str ''You asked: q5''),
      HumanMessage (str ''q6''), AIMessage (str ''You asked: q6'')]\<rparr>"
  by (simp add: example_calls_def example_steps example_ids resolve_conversation_id_given
      session_upd session_def save_context_def new_memory_def)

lemma example_transcript:
  "transcript Map.empty (str ''c1'') example_calls =
     [(str ''q1'', str ''You asked: q1''),
      (str ''q2'', str ''You asked: q2''),
      (str ''q3'', str ''You asked: q3''),
      (str ''q4'', str ''You asked: q4''),
      (str ''q5'', str ''You asked: q5''),
      (str ''q6'', str ''You asked: q6'')]"
  by (simp add: example_calls_def example_steps example_ids resolve_conversation_id_given
      session_upd session_def save_context_def new_memory_def answer_of_def)


text \<open>
  C1, as the specification states it: the session holds at most 5 exchanges at all times
  and an append beyond the bound evicts the oldest.  This fails: \<open>save_context\<close> only
  appends, and nothing removes a message.  After the six successful exchanges of the
  example the memory of \<open>c1\<close> holds all six, twelve messages, the first question
  still at its head.
\<close>

theorem memory_keeps_every_exchange:
  "map_option chat_messages (run Map.empty example_calls (str ''c1'')) =
     Some [HumanMessage (str ''q1''), AIMessage (str ''You asked: q1''),
          HumanMessage (str ''q2''), AIMessage (str ''You asked: q2''),
          HumanMessage (str ''q3''), AIMessage (str ''You asked: q3''),
          HumanMessage (str ''q4''), AIMessage (str ''You asked: q4''),
          HumanMessage (str ''q5''), AIMessage (str ''You asked: q5''),
          HumanMessage (str ''q6''), AIMessage (str ''You asked: q6'')]"
  by (simp add: example_run)

text \<open>
  C1, amended: the bound and the eviction are those of the buffer that the session
  renders for later turns (the last \<open>2 * 5\<close> messages), not of what it stores.  For
  every conversation id and every list of calls since the dictionary was empty, of any
  conversations and with any outcomes, the memory of the conversation stores the messages
  of all its \<open>n\<close> successful exchanges, in order, and renders exactly the most recent
  \<open>min n 5\<close> of these (question, answer) pairs, oldest first.  A call in which every
  stage succeeds is a successful exchange: its question and the answer returned are
  appended.
\<close>

theorem memory_window_fifo:
  "(run Map.empty calls cid = Some m \<longrightarrow>
      chat_messages m = exchange_messages (transcript Map.empty cid calls) \<and>
      session_exchanges m =
        drop (length (transcript Map.empty cid calls) - 5) (transcript Map.empty cid calls) \<and>
      length (session_exchanges m) = min (length (transcript Map.empty cid calls)) 5) \<and>
   (all_stages_succeed e q \<and> cid \<noteq> [] \<longrightarrow>
      (\<exists>a. fst (answer_question e ms q (Some cid)) =
              Inr \<lparr>answer = a, conversation_id = cid\<rparr> \<and>
            transcript ms cid [(e, q, Some cid)] = [(q, a)]))"
proof (intro conjI impI)
  assume r: "run Map.empty calls cid = Some m"
  have "\<forall>c. window_k (session Map.empty c) = 5 \<and>
       chat_messages (session Map.empty c) =
         exchange_messages (stored_exchanges (session Map.empty c))"
    using new_memory_paired by (simp add: session_def)
  from run_transcript [OF this, of calls cid]
  have inv: "\<forall>c. window_k (session (run Map.empty calls) c) = 5 \<and>
        chat_messages (session (run Map.empty calls) c) =
          exchange_messages (stored_exchanges (session (run Map.empty calls) c))"
    and st: "stored_exchanges (session (run Map.empty calls) cid) =
      stored_exchanges (session Map.empty cid) @ transcript Map.empty cid calls"
    by blast+
  have sm: "session (run Map.empty calls) cid = m"
    using r by (simp add: session_def)
  have e: "stored_exchanges (session Map.empty cid) = []"
    by (simp add: session_def stored_exchanges_def new_memory_def)
  from inv have "window_k (session (run Map.empty calls) cid) = 5 \<and>
        chat_messages (session (run Map.empty calls) cid) =
          exchange_messages (stored_exchanges (session (run Map.empty calls) cid))"
    by blast
  then have k: "window_k m = 5"
    and p: "chat_messages m = exchange_messages (stored_exchanges m)"
    unfolding sm by simp_all
  from st have s: "stored_exchanges m = transcript Map.empty cid calls"
    unfolding sm e by simp
  from p s show 1: "chat_messages m = exchange_messages (transcript Map.empty cid calls)"
    by simp
  from k 1 show 2: "session_exchanges m =
        drop (length (transcript Map.empty cid calls) - 5) (transcript Map.empty cid calls)"
    unfolding exchange_messages_def by (rule session_exchanges_window)
  show "length (session_exchanges m) = min (length (transcript Map.empty cid calls)) 5"
    unfolding 2 by simp
next
  assume a: "all_stages_succeed e q \<and> cid \<noteq> []"
  then obtain a where aq: "answer_question e ms q (Some cid) =
      (Inr \<lparr>answer = a, conversation_id = cid\<rparr>, ms(cid \<mapsto> save_context (session ms cid) q a))"
    using answer_question_success [of e q cid ms] by (auto simp: session_def)
  have "resolve_conversation_id e (Some cid) = cid"
    using a by (simp add: resolve_conversation_id_given)
  then have "transcript ms cid [(e, q, Some cid)] = [(q, a)]"
    using length_save_context [of "session ms cid" q a]
    by (simp add: aq session_upd answer_of_def)
  with aq show "\<exists>a. fst (answer_question e ms q (Some cid)) =
              Inr \<lparr>answer = a, conversation_id = cid\<rparr> \<and>
            transcript ms cid [(e, q, Some cid)] = [(q, a)]"
    by simp
qed

theorem memory_window_fifo_witness:
  "transcript Map.empty (str ''c1'') example_calls =
     [(str ''q1'', str ''You asked: q1''),
      (str ''q2'', str ''You asked: q2''),
      (str ''q3'', str ''You asked: q3''),
      (str ''q4'', str ''You asked: q4''),
      (str ''q5'', str ''You asked: q5''),
      (str ''q6'', str ''You asked: q6'')] \<and>
   map_option session_exchanges (run Map.empty example_calls (str ''c1'')) =
     Some [(str ''q2'', str ''You asked: q2''),
          (str ''q3'', str ''You asked: q3''),
          (str ''q4'', str ''You asked: q4''),
          (str ''q5'', str ''You asked: q5''),
          (str ''q6'', str ''You asked: q6'')] \<and>
   all_stages_succeed example_env (str ''q1'') \<and> str ''c1'' \<noteq> [] \<and>
   transcript Map.empty (str ''c1'') [(example_env, str ''q1'', Some (str ''c1''))] =
     [(str ''q1'', str ''You asked: q1'')]"
proof -
  have 1: "all_stages_succeed example_env (str ''q1'')"
    by (rule example_env_succeeds) (rule example_texts(1))
  note A = memory_window_fifo
    [of example_calls "str ''c1''" _ example_env "str ''q1''" Map.empty, unfolded example_run]
  from A have "session_exchanges
        \<lparr>window_k = 5, chat_messages =
           [HumanMessage (str ''q1''), AIMessage (str ''You asked: q1''),
           HumanMessage (str ''q2''), AIMessage (str ''You asked: q2''),
           HumanMessage (str ''q3''), AIMessage (str ''You asked: q3''),
           HumanMessage (str ''q4''), AIMessage (str ''You asked: q4''),
           HumanMessage (str ''q5''), AIMessage (str ''You asked: q5''),
           HumanMessage (str ''q6''), AIMessage (str ''You asked: q6'')]\<rparr> =
      drop (length (transcript Map.empty (str ''c1'') example_calls) - 5)
        (transcript Map.empty (str ''c1'') example_calls)"
    by blast
  then have 2: "map_option session_exchanges (run Map.empty example_calls (str ''c1'')) =
     Some [(str ''q2'', str ''You asked: q2''),
          (str ''q3'', str ''You asked: q3''),
          (str ''q4'', str ''You asked: q4''),
          (str ''q5'', str ''You asked: q5''),
          (str ''q6'', str ''You asked: q6'')]"
    by (simp add: example_run example_transcript)
  from A 1 example_ids(1) obtain a where
    "fst (answer_question example_env Map.empty (str ''q1'') (Some (str ''c1''))) =
       Inr \<lparr>answer = a, conversation_id = str ''c1''\<rparr>"
    and "transcript Map.empty (str ''c1'') [(example_env, str ''q1'', Some (str ''c1''))] =
       [(str ''q1'', a)]"
    by blast
  then have 3: "transcript Map.empty (str ''c1'') [(example_env, str ''q1'', Some (str ''c1''))] =
     [(str ''q1'', str ''You asked: q1'')]"
    by (simp add: example_env_answer [OF example_texts(1) example_ids(1) example_answers(1)])
  from 1 2 3 example_ids(1) example_transcript show ?thesis
    by simp
qed

end
